theory Spec2Isabelle
  imports Main
begin

section \<open>Data model\<close>

text \<open>
  The repository holds two variants of the same \<open>SheetsProcessor\<close> class:
  \<open>src/index.js\<close> and \<open>src/unnamed/part_001\<close>. Functions of the first keep their
  source names; functions of the second carry the suffix \<open>_p1\<close>. Where the two
  variants have the same text only one definition is given.

  A cell is a JavaScript scalar as the Sheets API hands it over (a string), the number
  the cleaner writes (\<open>0\<close>), or one of the two missing values \<open>null\<close> and
  \<open>undefined\<close>. Rows are dense arrays of cells. Numbers are integers here.
\<close>

datatype cell = Str string | Num int | Null | Undefined

type_synonym row = "cell list"

text \<open>
  What a \<open>throw\<close> can carry in this program: an \<open>Error\<close> object, known by its
  \<open>message\<close>, or the value \<open>undefined\<close> (the initial content of \<open>lastError\<close>
  in \<open>retryOperation\<close>).
\<close>

datatype thrown = ThrownUndefined | Error string

text \<open>The four operations of \<open>service.spreadsheets.values\<close>, with spreadsheet id and range.\<close>

datatype call =
    Get cell cell
  | Clear cell cell
  | Update cell cell "row list"
  | Append cell cell "row list"

text \<open>
  Observable effects, in the order the program performs them: a call of
  \<open>rateLimiter.throttle()\<close>, a call of \<open>rateLimiter.sleep(ms)\<close>, and a remote call
  with its outcome (\<open>True\<close> when it resolved). The \<open>Logger\<close> writes to the console and
  to a local file, catches its own failures, and is left out.
\<close>

datatype event = Throttle | Sleep nat | Call call bool

record state =
  trace :: "event list"
  calls :: nat
  processedCount :: nat
  errorCount :: nat

text \<open>
  The world outside the process. \<open>remote k c\<close> is the answer of the remote service to
  call \<open>c\<close> when \<open>k\<close> remote calls were made before it: \<open>Inl m\<close> rejects with an
  \<open>Error\<close> of message \<open>m\<close>, \<open>Inr v\<close> resolves with \<open>result.data.values = v\<close>
  (\<open>None\<close> when the field is absent). \<open>nowStr k\<close> is the formatted wall-clock time
  read when the trace holds \<open>k\<close> events.
\<close>

record env =
  remote :: "nat \<Rightarrow> call \<Rightarrow> string + row list option"
  nowStr :: "nat \<Rightarrow> string"

record config =
  SPREADSHEET_ID :: string
  BATCH_SIZE :: nat
  MAX_RETRIES :: int
  CHUNK_SIZE :: nat

definition CONFIG :: config where
  "CONFIG = \<lparr>SPREADSHEET_ID = ''1TtGZrIcQXDPikzgk91UL_VEjT2Rv3maEByDj0pl2Q50'',
     BATCH_SIZE = 10, MAX_RETRIES = 3, CHUNK_SIZE = 5000\<rparr>"

definition CONFIG_p1 :: config where
  "CONFIG_p1 = \<lparr>SPREADSHEET_ID = ''1TtGZrIcQXDPikzgk91UL_VEjT2Rv3maEByDj0pl2Q50'',
     BATCH_SIZE = 10, MAX_RETRIES = 3, CHUNK_SIZE = 3000\<rparr>"

type_synonym 'a action = "state \<Rightarrow> (thrown + 'a) \<times> state"

text \<open>Reading \<open>error.message\<close> of the value \<open>undefined\<close> throws this \<open>TypeError\<close>.\<close>

definition messageOfUndefined :: thrown where
  "messageOfUndefined =
     Error (''Cannot read properties of undefined (reading '' @ [CHR 0x27] @ ''message'' @
            [CHR 0x27] @ '')'')"

section \<open>RateLimiter\<close>

definition throttle :: "state \<Rightarrow> state" where
  "throttle s = s\<lparr>trace := trace s @ [Throttle]\<rparr>"

definition sleep :: "nat \<Rightarrow> state \<Rightarrow> state" where
  "sleep ms s = s\<lparr>trace := trace s @ [Sleep ms]\<rparr>"

section \<open>The remote service\<close>

definition remoteCall :: "env \<Rightarrow> call \<Rightarrow> row list option action" where
  "remoteCall e c s =
     (case remote e (calls s) c of
        Inl m \<Rightarrow> (Inl (Error m), s\<lparr>trace := trace s @ [Call c False], calls := calls s + 1\<rparr>)
      | Inr v \<Rightarrow> (Inr v, s\<lparr>trace := trace s @ [Call c True], calls := calls s + 1\<rparr>))"

section \<open>retryOperation\<close>

text \<open>\<open>Math.min(1000 * Math.pow(2, attempt - 1), 10000)\<close>\<close>

definition backoff :: "int \<Rightarrow> nat" where
  "backoff attempt = min (1000 * 2 ^ nat (attempt - 1)) 10000"

text \<open>
  The loop of \<open>retryOperation\<close> in \<open>src/index.js\<close>, from the value \<open>attempt\<close> on.
  On the last attempt the loop is left by \<open>break\<close>; before, the \<open>catch\<close> block reads
  \<open>error.message\<close> for the warning, which itself throws when \<open>error\<close> is
  \<open>undefined\<close>.
\<close>

function retryLoop :: "'a action \<Rightarrow> int \<Rightarrow> int \<Rightarrow> thrown \<Rightarrow> 'a action" where
  "retryLoop operation maxRetries attempt lastError s =
     (if attempt \<le> maxRetries then
        (case operation (throttle s) of
           (Inr v, s1) \<Rightarrow> (Inr v, s1)
         | (Inl error, s1) \<Rightarrow>
             if attempt = maxRetries then (Inl error, s1)
             else (case error of
                     ThrownUndefined \<Rightarrow> (Inl messageOfUndefined, s1)
                   | Error m \<Rightarrow>
                       retryLoop operation maxRetries (attempt + 1) error
                         (sleep (backoff attempt) s1)))
      else (Inl lastError, s))"
  by pat_completeness auto
termination
  by (relation "measure (\<lambda>(operation, maxRetries, attempt, lastError, s).
        nat (maxRetries + 1 - attempt))") auto

definition retryOperation :: "'a action \<Rightarrow> int \<Rightarrow> 'a action" where
  "retryOperation operation maxRetries s = retryLoop operation maxRetries 1 ThrownUndefined s"

text \<open>
  The same loop in \<open>src/unnamed/part_001\<close>: no \<open>break\<close>; the backoff is guarded by
  \<open>attempt < maxRetries\<close> and the loop condition ends the loop.
\<close>

function retryLoop_p1 :: "'a action \<Rightarrow> int \<Rightarrow> int \<Rightarrow> thrown \<Rightarrow> 'a action" where
  "retryLoop_p1 operation maxRetries attempt lastError s =
     (if attempt \<le> maxRetries then
        (case operation (throttle s) of
           (Inr v, s1) \<Rightarrow> (Inr v, s1)
         | (Inl error, s1) \<Rightarrow>
             if attempt < maxRetries then
               (case error of
                  ThrownUndefined \<Rightarrow> (Inl messageOfUndefined, s1)
                | Error m \<Rightarrow>
                    retryLoop_p1 operation maxRetries (attempt + 1) error
                      (sleep (backoff attempt) s1))
             else retryLoop_p1 operation maxRetries (attempt + 1) error s1)
      else (Inl lastError, s))"
  by pat_completeness auto
termination
  by (relation "measure (\<lambda>(operation, maxRetries, attempt, lastError, s).
        nat (maxRetries + 1 - attempt))") auto

definition retryOperation_p1 :: "'a action \<Rightarrow> int \<Rightarrow> 'a action" where
  "retryOperation_p1 operation maxRetries s =
     retryLoop_p1 operation maxRetries 1 ThrownUndefined s"

section \<open>Small JavaScript helpers\<close>

text \<open>\<open>row[i]\<close>: reading past the end of an array gives \<open>undefined\<close>.\<close>

definition idx :: "row \<Rightarrow> nat \<Rightarrow> cell" where
  "idx r i = (if i < length r then r ! i else Undefined)"

function showNat :: "nat \<Rightarrow> string" where
  "showNat n = (if n < 10 then [''0123456789'' ! n]
                else showNat (n div 10) @ [''0123456789'' ! (n mod 10)])"
  by pat_completeness auto
termination
  by (relation "measure (\<lambda>n. n)") auto

definition showInt :: "int \<Rightarrow> string" where
  "showInt i = (if i < 0 then CHR ''-'' # showNat (nat (- i)) else showNat (nat i))"

text \<open>The conversion a template literal applies to a cell it interpolates.\<close>

fun toStr :: "cell \<Rightarrow> string" where
  "toStr (Str s) = s"
| "toStr (Num n) = showInt n"
| "toStr Null = ''null''"
| "toStr Undefined = ''undefined''"

text \<open>
  The range literals of the configuration table (\<open>COSTDATA_DB\<close>, columns C to F from
  row 2) and of the status log (\<open>S_LOG\<close>, columns A to B from row 2); the sheet names
  stand in single quotes (character \<open>0x27\<close>).
\<close>

definition configRange :: string where
  "configRange = CHR 0x27 # ''COSTDATA_DB'' @ CHR 0x27 # ''!C2:F''"

definition logRange :: string where
  "logRange = CHR 0x27 # ''S_LOG'' @ CHR 0x27 # ''!A2:B''"

text \<open>An operation whose closure awaits one remote call and returns nothing.\<close>

definition remoteUnit :: "env \<Rightarrow> call \<Rightarrow> unit action" where
  "remoteUnit e c s = (case remoteCall e c s of
        (Inl x, s1) \<Rightarrow> (Inl x, s1)
      | (Inr v, s1) \<Rightarrow> (Inr (), s1))"

text \<open>An operation that returns \<open>result.data.values || []\<close>.\<close>

definition remoteValues :: "env \<Rightarrow> call \<Rightarrow> row list action" where
  "remoteValues e c s = (case remoteCall e c s of
        (Inl x, s1) \<Rightarrow> (Inl x, s1)
      | (Inr v, s1) \<Rightarrow> (Inr (case v of None \<Rightarrow> [] | Some rows \<Rightarrow> rows), s1))"

section \<open>Reading\<close>

definition getConfigurationData :: "config \<Rightarrow> env \<Rightarrow> row list action" where
  "getConfigurationData cfg e s =
     retryOperation (remoteValues e (Get (Str (SPREADSHEET_ID cfg)) (Str configRange)))
       (MAX_RETRIES cfg) s"

definition processSheetData :: "config \<Rightarrow> env \<Rightarrow> cell \<Rightarrow> cell \<Rightarrow> row list action" where
  "processSheetData cfg e spreadsheetId range' s =
     retryOperation (remoteValues e (Get spreadsheetId range')) (MAX_RETRIES cfg) s"

definition getConfigurationData_p1 :: "config \<Rightarrow> env \<Rightarrow> row list action" where
  "getConfigurationData_p1 cfg e s =
     retryOperation_p1 (remoteValues e (Get (Str (SPREADSHEET_ID cfg)) (Str configRange)))
       (MAX_RETRIES cfg) s"

definition processSheetData_p1 :: "config \<Rightarrow> env \<Rightarrow> cell \<Rightarrow> cell \<Rightarrow> row list action" where
  "processSheetData_p1 cfg e spreadsheetId range' s =
     retryOperation_p1 (remoteValues e (Get spreadsheetId range')) (MAX_RETRIES cfg) s"

section \<open>logToSheet\<close>

text \<open>
  Only \<open>src/index.js\<close> has it. The \<open>catch\<close> block swallows the failure of the append
  after reading \<open>error.message\<close>.
\<close>

definition logToSheet :: "config \<Rightarrow> env \<Rightarrow> cell \<Rightarrow> string \<Rightarrow> unit action" where
  "logToSheet cfg e spreadsheetId message s =
     (let logData = [[Str (nowStr e (length (trace s))), Str message]] in
      case retryOperation (remoteUnit e (Append spreadsheetId (Str logRange) logData))
             (MAX_RETRIES cfg) s of
        (Inr u, s1) \<Rightarrow> (Inr (), s1)
      | (Inl error, s1) \<Rightarrow>
          (case error of
             ThrownUndefined \<Rightarrow> (Inl messageOfUndefined, s1)
           | Error m \<Rightarrow> (Inr (), s1)))"

section \<open>processBatch\<close>

text \<open>How a promise of \<open>Promise.allSettled\<close> ends.\<close>

datatype settled = Fulfilled "row list" | Rejected thrown

definition sourceUrl :: "row \<Rightarrow> string" where
  "sourceUrl r = ''https://docs.google.com/spreadsheets/d/'' @ toStr (idx r 0)"

text \<open>
  The body of the async function that \<open>processBatch\<close> maps over the batch, for one
  configuration row.
\<close>

definition batchItem :: "config \<Rightarrow> env \<Rightarrow> row \<Rightarrow> state \<Rightarrow> settled \<times> state" where
  "batchItem cfg e r s =
     (case processSheetData cfg e (idx r 0) (idx r 1) s of
        (Inr rData, s1) \<Rightarrow>
          if length rData = 0 then (Fulfilled [], s1)
          else (Fulfilled (map (\<lambda>dataRow. dataRow @ [Str (sourceUrl r)]) rData),
                s1\<lparr>processedCount := processedCount s1 + 1\<rparr>)
      | (Inl error, s1) \<Rightarrow>
          (let s2 = s1\<lparr>errorCount := errorCount s1 + 1\<rparr> in
           case error of
             ThrownUndefined \<Rightarrow> (Rejected messageOfUndefined, s2)
           | Error m \<Rightarrow>
               (case logToSheet cfg e (idx r 2) m s2 of
                  (Inr u, s3) \<Rightarrow> (Fulfilled [], s3)
                | (Inl x, s3) \<Rightarrow> (Rejected x, s3))))"

definition batchItem_p1 :: "config \<Rightarrow> env \<Rightarrow> row \<Rightarrow> state \<Rightarrow> settled \<times> state" where
  "batchItem_p1 cfg e r s =
     (case processSheetData_p1 cfg e (idx r 0) (idx r 1) s of
        (Inr rData, s1) \<Rightarrow>
          if length rData = 0 then (Fulfilled [], s1)
          else (Fulfilled (map (\<lambda>dataRow. dataRow @ [Str (sourceUrl r)]) rData),
                s1\<lparr>processedCount := processedCount s1 + 1\<rparr>)
      | (Inl error, s1) \<Rightarrow>
          (let s2 = s1\<lparr>errorCount := errorCount s1 + 1\<rparr> in
           case error of
             ThrownUndefined \<Rightarrow> (Rejected messageOfUndefined, s2)
           | Error m \<Rightarrow> (Fulfilled [], s2)))"

text \<open>
  \<open>Promise.allSettled\<close> over the batch. The items of a batch run interleaved in the
  source; here they run one after the other in listed order, which is the order the
  results are collected in. The answers of \<open>remote\<close> are arbitrary, so every outcome
  an interleaving can give to an item is given to it by some \<open>remote\<close>.
\<close>

fun allSettled ::
  "(row \<Rightarrow> state \<Rightarrow> settled \<times> state) \<Rightarrow> row list \<Rightarrow> state \<Rightarrow> settled list \<times> state" where
  "allSettled item [] s = ([], s)"
| "allSettled item (r # batch) s =
     (case item r s of (result, s1) \<Rightarrow>
        (case allSettled item batch s1 of (results, s2) \<Rightarrow> (result # results, s2)))"

fun settledValue :: "settled \<Rightarrow> row list" where
  "settledValue (Fulfilled v) = v"
| "settledValue (Rejected x) = []"

definition processBatch :: "config \<Rightarrow> env \<Rightarrow> row list \<Rightarrow> state \<Rightarrow> row list \<times> state" where
  "processBatch cfg e batch s =
     (case allSettled (batchItem cfg e) batch s of
        (results, s1) \<Rightarrow> (concat (map settledValue results), s1))"

definition processBatch_p1 :: "config \<Rightarrow> env \<Rightarrow> row list \<Rightarrow> state \<Rightarrow> row list \<times> state" where
  "processBatch_p1 cfg e batch s =
     (case allSettled (batchItem_p1 cfg e) batch s of
        (results, s1) \<Rightarrow> (concat (map settledValue results), s1))"

section \<open>cleanData\<close>

definition cleanData :: "row list \<Rightarrow> row list" where
  "cleanData data =
     (if length data = 0 then []
      else map (map (\<lambda>cell. if cell = Str [] \<or> cell = Null \<or> cell = Undefined
                             then Num 0 else cell))
             (filter (list_ex (\<lambda>cell. cell \<noteq> Str [] \<and> cell \<noteq> Null \<and> cell \<noteq> Undefined))
                data))"

text \<open>\<open>cell == null\<close>, the loose comparison of \<open>src/unnamed/part_001\<close>.\<close>

definition looseNull :: "cell \<Rightarrow> bool" where
  "looseNull cell = (cell = Null \<or> cell = Undefined)"

definition cleanData_p1 :: "row list \<Rightarrow> row list" where
  "cleanData_p1 data =
     (if length data = 0 then []
      else map (map (\<lambda>cell. if cell = Str [] \<or> looseNull cell then Num 0 else cell))
             (filter (list_ex (\<lambda>cell. cell \<noteq> Str [] \<and> \<not> looseNull cell)) data))"

section \<open>Writing\<close>

definition updateDestination :: "config \<Rightarrow> env \<Rightarrow> cell \<Rightarrow> cell \<Rightarrow> row list \<Rightarrow> unit action" where
  "updateDestination cfg e destinationSpreadsheetId destinationRange data s =
     (case retryOperation (remoteUnit e (Clear destinationSpreadsheetId destinationRange))
             (MAX_RETRIES cfg) s of
        (Inl x, s1) \<Rightarrow> (Inl x, s1)
      | (Inr u, s1) \<Rightarrow>
          retryOperation (remoteUnit e (Update destinationSpreadsheetId destinationRange data))
            (MAX_RETRIES cfg) s1)"

definition updateDestination_p1 :: "config \<Rightarrow> env \<Rightarrow> cell \<Rightarrow> cell \<Rightarrow> row list \<Rightarrow> unit action" where
  "updateDestination_p1 cfg e destinationSpreadsheetId destinationRange data s =
     (case retryOperation_p1 (remoteUnit e (Clear destinationSpreadsheetId destinationRange))
             (MAX_RETRIES cfg) s of
        (Inl x, s1) \<Rightarrow> (Inl x, s1)
      | (Inr u, s1) \<Rightarrow>
          retryOperation_p1 (remoteUnit e (Update destinationSpreadsheetId destinationRange data))
            (MAX_RETRIES cfg) s1)"

text \<open>
  The \<open>for\<close> loop of \<open>updateDestinationInChunks\<close> from index \<open>i\<close> on. The loop does
  not end when \<open>CHUNK_SIZE\<close> is \<open>0\<close>, so the result is an option: \<open>None\<close> is a run
  that never returns.
\<close>

partial_function (option) chunkLoop ::
  "config \<Rightarrow> env \<Rightarrow> cell \<Rightarrow> cell \<Rightarrow> row list \<Rightarrow> nat \<Rightarrow> state \<Rightarrow> ((thrown + unit) \<times> state) option" where
  [code]: "chunkLoop cfg e destinationSpreadsheetId destinationRange data i s =
     (if i < length data then
        (let chunk = take (CHUNK_SIZE cfg) (drop i data) in
         case retryOperation
                (remoteUnit e
                   (if i = 0 then Update destinationSpreadsheetId destinationRange chunk
                    else Append destinationSpreadsheetId destinationRange chunk))
                (MAX_RETRIES cfg) s of
           (Inl x, s1) \<Rightarrow> Some (Inl x, s1)
         | (Inr u, s1) \<Rightarrow>
             chunkLoop cfg e destinationSpreadsheetId destinationRange data
               (i + CHUNK_SIZE cfg) s1)
      else Some (Inr (), s))"

definition updateDestinationInChunks ::
  "config \<Rightarrow> env \<Rightarrow> cell \<Rightarrow> cell \<Rightarrow> row list \<Rightarrow> state \<Rightarrow> ((thrown + unit) \<times> state) option" where
  "updateDestinationInChunks cfg e destinationSpreadsheetId destinationRange data s =
     (if length data \<le> CHUNK_SIZE cfg
      then Some (updateDestination cfg e destinationSpreadsheetId destinationRange data s)
      else
        (case retryOperation (remoteUnit e (Clear destinationSpreadsheetId destinationRange))
                (MAX_RETRIES cfg) s of
           (Inl x, s1) \<Rightarrow> Some (Inl x, s1)
         | (Inr u, s1) \<Rightarrow>
             chunkLoop cfg e destinationSpreadsheetId destinationRange data 0 s1))"

text \<open>
  In \<open>src/unnamed/part_001\<close> each chunk write stands in a \<open>try\<close> with
  \<open>rateLimiter.sleep(1000)\<close> after it; the \<open>catch\<close> block reads \<open>error.message\<close>
  and throws the error again.
\<close>

partial_function (option) chunkLoop_p1 ::
  "config \<Rightarrow> env \<Rightarrow> cell \<Rightarrow> cell \<Rightarrow> row list \<Rightarrow> nat \<Rightarrow> state \<Rightarrow> ((thrown + unit) \<times> state) option" where
  [code]: "chunkLoop_p1 cfg e destinationSpreadsheetId destinationRange data i s =
     (if i < length data then
        (let chunk = take (CHUNK_SIZE cfg) (drop i data) in
         case retryOperation_p1
                (remoteUnit e
                   (if i = 0 then Update destinationSpreadsheetId destinationRange chunk
                    else Append destinationSpreadsheetId destinationRange chunk))
                (MAX_RETRIES cfg) s of
           (Inl error, s1) \<Rightarrow>
             (case error of
                ThrownUndefined \<Rightarrow> Some (Inl messageOfUndefined, s1)
              | Error m \<Rightarrow> Some (Inl error, s1))
         | (Inr u, s1) \<Rightarrow>
             chunkLoop_p1 cfg e destinationSpreadsheetId destinationRange data
               (i + CHUNK_SIZE cfg) (sleep 1000 s1))
      else Some (Inr (), s))"

definition updateDestinationInChunks_p1 ::
  "config \<Rightarrow> env \<Rightarrow> cell \<Rightarrow> cell \<Rightarrow> row list \<Rightarrow> state \<Rightarrow> ((thrown + unit) \<times> state) option" where
  "updateDestinationInChunks_p1 cfg e destinationSpreadsheetId destinationRange data s =
     (if length data \<le> CHUNK_SIZE cfg
      then Some (updateDestination_p1 cfg e destinationSpreadsheetId destinationRange data s)
      else
        (case retryOperation_p1 (remoteUnit e (Clear destinationSpreadsheetId destinationRange))
                (MAX_RETRIES cfg) s of
           (Inl x, s1) \<Rightarrow> Some (Inl x, s1)
         | (Inr u, s1) \<Rightarrow>
             chunkLoop_p1 cfg e destinationSpreadsheetId destinationRange data 0 s1))"

section \<open>run\<close>

text \<open>
  The batch loop of \<open>run\<close> from index \<open>i\<close> on, with \<open>finalData\<close> as accumulated so
  far. The loop does not end when \<open>BATCH_SIZE\<close> is \<open>0\<close> and rows remain.
\<close>

partial_function (option) batchLoop ::
  "config \<Rightarrow> env \<Rightarrow> row list \<Rightarrow> nat \<Rightarrow> row list \<Rightarrow> state \<Rightarrow> (row list \<times> state) option" where
  [code]: "batchLoop cfg e rows i finalData s =
     (if i < length rows then
        (let batch = take (BATCH_SIZE cfg) (drop i rows) in
         case processBatch cfg e batch s of
           (batchResults, s1) \<Rightarrow>
             batchLoop cfg e rows (i + BATCH_SIZE cfg) (finalData @ batchResults) s1)
      else Some (finalData, s))"

partial_function (option) batchLoop_p1 ::
  "config \<Rightarrow> env \<Rightarrow> row list \<Rightarrow> nat \<Rightarrow> row list \<Rightarrow> state \<Rightarrow> (row list \<times> state) option" where
  [code]: "batchLoop_p1 cfg e rows i finalData s =
     (if i < length rows then
        (let batch = take (BATCH_SIZE cfg) (drop i rows) in
         case processBatch_p1 cfg e batch s of
           (batchResults, s1) \<Rightarrow>
             batchLoop_p1 cfg e rows (i + BATCH_SIZE cfg) (finalData @ batchResults) s1)
      else Some (finalData, s))"

text \<open>
  The \<open>try\<close> block of \<open>run\<close> in \<open>src/index.js\<close>. \<open>initialize\<close> builds the client
  from the credentials and makes no remote call; it is taken to succeed.
\<close>

definition runTry :: "config \<Rightarrow> env \<Rightarrow> state \<Rightarrow> ((thrown + unit) \<times> state) option" where
  "runTry cfg e s =
     (case getConfigurationData cfg e s of
        (Inl x, s1) \<Rightarrow> Some (Inl x, s1)
      | (Inr rows, s1) \<Rightarrow>
          if length rows = 0 then Some (Inr (), s1)
          else
            (case batchLoop cfg e rows 0 [] s1 of
               None \<Rightarrow> None
             | Some (fetched, s2) \<Rightarrow>
                 (let finalData = cleanData fetched;
                      lastRow = rows ! (length rows - 1);
                      destinationSpreadsheetId = idx lastRow 2;
                      destinationRange = idx lastRow 3
                  in case (if length finalData > CHUNK_SIZE cfg
                           then updateDestinationInChunks cfg e destinationSpreadsheetId
                                  destinationRange finalData s2
                           else Some (updateDestination cfg e destinationSpreadsheetId
                                  destinationRange finalData s2)) of
                       None \<Rightarrow> None
                     | Some (Inl x, s3) \<Rightarrow> Some (Inl x, s3)
                     | Some (Inr u, s3) \<Rightarrow>
                         Some (logToSheet cfg e destinationSpreadsheetId ''Done'' s3))))"

text \<open>
  The \<open>catch\<close> block of \<open>run\<close> in \<open>src/index.js\<close>: it reads the configuration again,
  logs \<open>FINAL ERROR\<close> to the destination of its last row, swallows what this attempt
  throws, and throws the first error again.
\<close>

definition runCatch :: "config \<Rightarrow> env \<Rightarrow> thrown \<Rightarrow> unit action" where
  "runCatch cfg e error s =
     (case error of
        ThrownUndefined \<Rightarrow> (Inl messageOfUndefined, s)
      | Error m \<Rightarrow>
          (case getConfigurationData cfg e s of
             (Inl logError, s1) \<Rightarrow>
               (case logError of
                  ThrownUndefined \<Rightarrow> (Inl messageOfUndefined, s1)
                | Error m1 \<Rightarrow> (Inl error, s1))
           | (Inr rows, s1) \<Rightarrow>
               if length rows > 0 then
                 (case logToSheet cfg e (idx (rows ! (length rows - 1)) 2)
                         (''FINAL ERROR: '' @ m) s1 of
                    (Inl logError, s2) \<Rightarrow>
                      (case logError of
                         ThrownUndefined \<Rightarrow> (Inl messageOfUndefined, s2)
                       | Error m1 \<Rightarrow> (Inl error, s2))
                  | (Inr u, s2) \<Rightarrow> (Inl error, s2))
               else (Inl error, s1)))"

definition run :: "config \<Rightarrow> env \<Rightarrow> state \<Rightarrow> ((thrown + unit) \<times> state) option" where
  "run cfg e s =
     (case runTry cfg e s of
        None \<Rightarrow> None
      | Some (Inr u, s1) \<Rightarrow> Some (Inr (), s1)
      | Some (Inl error, s1) \<Rightarrow> Some (runCatch cfg e error s1))"

text \<open>
  \<open>run\<close> in \<open>src/unnamed/part_001\<close>. The destination is read by the pattern
  \<open>[,,,, lastDestSheet, lastDestRange]\<close>, whose four holes skip the indices 0 to 3. The
  \<open>catch\<close> block logs \<open>error.message\<close> to the local file and returns.
\<close>

definition runTry_p1 :: "config \<Rightarrow> env \<Rightarrow> state \<Rightarrow> ((thrown + unit) \<times> state) option" where
  "runTry_p1 cfg e s =
     (case getConfigurationData_p1 cfg e s of
        (Inl x, s1) \<Rightarrow> Some (Inl x, s1)
      | (Inr rows, s1) \<Rightarrow>
          if length rows = 0 then Some (Inr (), s1)
          else
            (case batchLoop_p1 cfg e rows 0 [] s1 of
               None \<Rightarrow> None
             | Some (fetched, s2) \<Rightarrow>
                 (let finalData = cleanData_p1 fetched;
                      lastRow = rows ! (length rows - 1);
                      lastDestSheet = idx lastRow 4;
                      lastDestRange = idx lastRow 5
                  in if length finalData > CHUNK_SIZE cfg
                     then updateDestinationInChunks_p1 cfg e lastDestSheet lastDestRange
                            finalData s2
                     else Some (updateDestination_p1 cfg e lastDestSheet lastDestRange
                            finalData s2))))"

definition run_p1 :: "config \<Rightarrow> env \<Rightarrow> state \<Rightarrow> ((thrown + unit) \<times> state) option" where
  "run_p1 cfg e s =
     (case runTry_p1 cfg e s of
        None \<Rightarrow> None
      | Some (Inr u, s1) \<Rightarrow> Some (Inr (), s1)
      | Some (Inl error, s1) \<Rightarrow>
          (case error of
             ThrownUndefined \<Rightarrow> Some (Inl messageOfUndefined, s1)
           | Error m \<Rightarrow> Some (Inr (), s1)))"

section \<open>Reading the trace\<close>

text \<open>The remote calls of a trace, in order, whatever their outcome.\<close>

fun remoteCalls :: "event list \<Rightarrow> call list" where
  "remoteCalls [] = []"
| "remoteCalls (Call c ok # t) = c # remoteCalls t"
| "remoteCalls (Throttle # t) = remoteCalls t"
| "remoteCalls (Sleep ms # t) = remoteCalls t"

text \<open>The events a step added to the trace.\<close>

definition added :: "state \<Rightarrow> state \<Rightarrow> event list" where
  "added s s' = drop (length (trace s)) (trace s')"

text \<open>
  The slices \<open>data.slice(i, i + n)\<close> for \<open>i = 0, n, 2 * n, ...\<close> below
  \<open>data.length\<close>, as the chunk loop takes them.
\<close>

function slices :: "nat \<Rightarrow> 'a list \<Rightarrow> 'a list list" where
  "slices n xs =
     (if n = 0 \<or> xs = [] then [] else take n xs # slices n (drop n xs))"
  by pat_completeness auto
termination
  by (relation "measure (\<lambda>(n, xs). length xs)") auto

text \<open>A remote service that resolves every call, with no values.\<close>

definition alwaysOk :: env where
  "alwaysOk = \<lparr>remote = (\<lambda>k c. Inr None), nowStr = (\<lambda>k. ''12:00'')\<rparr>"

definition initial :: state where
  "initial = \<lparr>trace = [], calls = 0, processedCount = 0, errorCount = 0\<rparr>"


text \<open>
  An operation that issues the remote call \<open>c\<close> and then, whatever the call answered,
  rejects with \<open>undefined\<close> (as \<open>Promise.reject()\<close> does).
\<close>

definition rejectsWithUndefined :: "env \<Rightarrow> call \<Rightarrow> unit action" where
  "rejectsWithUndefined e c s = (Inl ThrownUndefined, snd (remoteUnit e c s))"

text \<open>The sleeps of a trace, in order: the backoffs of the retry loop and the pacing delays.\<close>

fun sleeps :: "event list \<Rightarrow> nat list" where
  "sleeps [] = []"
| "sleeps (Sleep ms # t) = ms # sleeps t"
| "sleeps (Throttle # t) = sleeps t"
| "sleeps (Call c ok # t) = sleeps t"

text \<open>A small configuration: batches and chunks of two rows, three attempts.\<close>

definition smallConfig :: config where
  "smallConfig = \<lparr>SPREADSHEET_ID = ''cfg'', BATCH_SIZE = 2, MAX_RETRIES = 3, CHUNK_SIZE = 2\<rparr>"

text \<open>
  \<open>onlyAdds P s s'\<close>: the trace of \<open>s'\<close> is the trace of \<open>s\<close> with more events at its
  end, each of which satisfies \<open>P\<close>.
\<close>

definition onlyAdds :: "(event \<Rightarrow> bool) \<Rightarrow> state \<Rightarrow> state \<Rightarrow> bool" where
  "onlyAdds P s s' = (\<exists>evs. trace s' = trace s @ evs \<and> list_all P evs)"

text \<open>
  What each fetch of a batch gave, in listed order: the result of \<open>processSheetData\<close>
  for a row, in the state the rows before it left.
\<close>

fun fetchOutcomes :: "config \<Rightarrow> env \<Rightarrow> row list \<Rightarrow> state \<Rightarrow> (thrown + row list) list" where
  "fetchOutcomes cfg e [] s = []"
| "fetchOutcomes cfg e (r # batch) s =
     fst (processSheetData cfg e (idx r 0) (idx r 1) s) #
     fetchOutcomes cfg e batch (snd (batchItem cfg e r s))"

text \<open>
  A remote service with a configuration table of three rows (in the spreadsheet \<open>cfg\<close>)
  and three source sheets: sheet \<open>A\<close> holds two rows, sheet \<open>B\<close> one, and every
  read of sheet \<open>bad\<close> is rejected. All other calls succeed.
\<close>

definition jobA :: row where
  "jobA = [Str ''A'', Str ''S!A:B'', Str ''D1'', Str ''T!A2'']"

definition jobBad :: row where
  "jobBad = [Str ''bad'', Str ''S!A:B'', Str ''D2'', Str ''T!A2'']"

definition jobB :: row where
  "jobB = [Str ''B'', Str ''S!A:B'', Str ''D3'', Str ''T!A2'']"

definition sheets :: env where
  "sheets = \<lparr>remote = (\<lambda>k c. case c of
        Get spreadsheetId range' \<Rightarrow>
          if spreadsheetId = Str ''cfg'' then Inr (Some [jobA, jobBad, jobB])
          else if spreadsheetId = Str ''A'' then Inr (Some [[Str ''a1'', Str []], [Str ''a2'']])
          else if spreadsheetId = Str ''B'' then Inr (Some [[Str ''b1'']])
          else if spreadsheetId = Str ''bad'' then Inl ''not found''
          else Inr None
      | Clear spreadsheetId range' \<Rightarrow> Inr None
      | Update spreadsheetId range' values \<Rightarrow> Inr None
      | Append spreadsheetId range' values \<Rightarrow> Inr None),
     nowStr = (\<lambda>k. ''12:00'')\<rparr>"

text \<open>
  \<open>writesOnlyTo d r ev\<close>: if the event is a remote call that writes (a clear, an update
  or an append), its target is the spreadsheet \<open>d\<close> and the range \<open>r\<close>, or it is an
  append to the status log range of some spreadsheet.
\<close>

fun writesOnlyTo :: "cell \<Rightarrow> cell \<Rightarrow> event \<Rightarrow> bool" where
  "writesOnlyTo d r (Call (Clear a b) ok) = (a = d \<and> b = r)"
| "writesOnlyTo d r (Call (Update a b values) ok) = (a = d \<and> b = r)"
| "writesOnlyTo d r (Call (Append a b values) ok) = ((a = d \<and> b = r) \<or> b = Str logRange)"
| "writesOnlyTo d r (Call (Get a b) ok) = True"
| "writesOnlyTo d r Throttle = True"
| "writesOnlyTo d r (Sleep ms) = True"

text \<open>The remote calls of a trace that succeeded, in order.\<close>

fun succeeded :: "event list \<Rightarrow> call list" where
  "succeeded [] = []"
| "succeeded (Call c ok # t) = (if ok then c # succeeded t else succeeded t)"
| "succeeded (Throttle # t) = succeeded t"
| "succeeded (Sleep ms # t) = succeeded t"

section \<open>The constants of the source\<close>

text \<open>
  The properties below are stated for any configuration with a positive batch size, a
  positive chunk size and at least one attempt; the constants of both source files are
  such.
\<close>

lemma source_constants:
  "0 < BATCH_SIZE CONFIG \<and> 0 < CHUNK_SIZE CONFIG \<and> 1 \<le> MAX_RETRIES CONFIG \<and>
   0 < BATCH_SIZE CONFIG_p1 \<and> 0 < CHUNK_SIZE CONFIG_p1 \<and> 1 \<le> MAX_RETRIES CONFIG_p1"
  by (simp add: CONFIG_def CONFIG_p1_def)

section \<open>Properties of retryOperation\<close>

declare retryLoop.simps [simp del]
declare retryLoop_p1.simps [simp del]

lemma retryLoop_exhausted:
  "maxRetries < attempt \<Longrightarrow>
     retryLoop operation maxRetries attempt lastError s = (Inl lastError, s)"
  by (subst retryLoop.simps) simp

lemma retryLoop_p1_exhausted:
  "maxRetries < attempt \<Longrightarrow>
     retryLoop_p1 operation maxRetries attempt lastError s = (Inl lastError, s)"
  by (subst retryLoop_p1.simps) simp

lemma retryLoop_success:
  "attempt \<le> maxRetries \<Longrightarrow> operation (throttle s) = (Inr v, s1) \<Longrightarrow>
     retryLoop operation maxRetries attempt lastError s = (Inr v, s1)"
  by (subst retryLoop.simps) simp

lemma retryLoop_p1_success:
  "attempt \<le> maxRetries \<Longrightarrow> operation (throttle s) = (Inr v, s1) \<Longrightarrow>
     retryLoop_p1 operation maxRetries attempt lastError s = (Inr v, s1)"
  by (subst retryLoop_p1.simps) simp

lemma retryLoop_last:
  "operation (throttle s) = (Inl x, s1) \<Longrightarrow>
     retryLoop operation maxRetries maxRetries lastError s = (Inl x, s1)"
  by (subst retryLoop.simps) simp

lemma retryLoop_p1_last:
  "operation (throttle s) = (Inl x, s1) \<Longrightarrow>
     retryLoop_p1 operation maxRetries maxRetries lastError s = (Inl x, s1)"
  by (subst retryLoop_p1.simps) (simp add: retryLoop_p1_exhausted)

lemma retryLoop_again:
  "attempt < maxRetries \<Longrightarrow> operation (throttle s) = (Inl (Error m), s1) \<Longrightarrow>
     retryLoop operation maxRetries attempt lastError s =
     retryLoop operation maxRetries (attempt + 1) (Error m) (sleep (backoff attempt) s1)"
  by (subst retryLoop.simps) simp

lemma retryLoop_p1_again:
  "attempt < maxRetries \<Longrightarrow> operation (throttle s) = (Inl (Error m), s1) \<Longrightarrow>
     retryLoop_p1 operation maxRetries attempt lastError s =
     retryLoop_p1 operation maxRetries (attempt + 1) (Error m) (sleep (backoff attempt) s1)"
  by (subst retryLoop_p1.simps) simp

lemma retryLoop_undefined:
  "attempt < maxRetries \<Longrightarrow> operation (throttle s) = (Inl ThrownUndefined, s1) \<Longrightarrow>
     retryLoop operation maxRetries attempt lastError s = (Inl messageOfUndefined, s1)"
  by (subst retryLoop.simps) simp

lemma retryLoop_p1_undefined:
  "attempt < maxRetries \<Longrightarrow> operation (throttle s) = (Inl ThrownUndefined, s1) \<Longrightarrow>
     retryLoop_p1 operation maxRetries attempt lastError s = (Inl messageOfUndefined, s1)"
  by (subst retryLoop_p1.simps) simp

text \<open>For whole numbers of attempts the two variants of the loop are the same function.\<close>

lemma retryLoop_p1_eq:
  "retryLoop_p1 operation maxRetries attempt lastError s =
   retryLoop operation maxRetries attempt lastError s"
proof (induction operation maxRetries attempt lastError s rule: retryLoop.induct)
  case (1 operation maxRetries attempt lastError s)
  show ?case
  proof (cases "attempt \<le> maxRetries")
    case False
    then show ?thesis
      by (simp add: retryLoop_exhausted retryLoop_p1_exhausted)
  next
    case le: True
    obtain r s1 where op: "operation (throttle s) = (r, s1)"
      by (cases "operation (throttle s)")
    show ?thesis
    proof (cases r)
      case (Inr v)
      with le op show ?thesis
        by (simp add: retryLoop_success retryLoop_p1_success)
    next
      case (Inl x)
      show ?thesis
      proof (cases "attempt = maxRetries")
        case True
        with op Inl show ?thesis
          by (simp add: retryLoop_last retryLoop_p1_last)
      next
        case False
        with le have lt: "attempt < maxRetries" by simp
        show ?thesis
        proof (cases x)
          case ThrownUndefined
          with lt op Inl show ?thesis
            by (simp add: retryLoop_undefined retryLoop_p1_undefined)
        next
          case (Error m)
          with lt le op Inl False "1.IH" [of r s1 x m] show ?thesis
            by (simp add: retryLoop_again retryLoop_p1_again)
        qed
      qed
    qed
  qed
qed

lemma retryOperation_p1_eq: "retryOperation_p1 operation maxRetries s = retryOperation operation maxRetries s"
  by (simp add: retryOperation_p1_def retryOperation_def retryLoop_p1_eq)

text \<open>
  An attempt before the last that throws \<open>undefined\<close> ends the loop: the \<open>TypeError\<close>
  of reading \<open>error.message\<close> is thrown from inside the catch block.
\<close>

lemma retryOperation_undefined_not_retried:
  "1 < maxRetries \<Longrightarrow> operation (throttle s) = (Inl ThrownUndefined, s1) \<Longrightarrow>
     retryOperation operation maxRetries s = (Inl messageOfUndefined, s1) \<and>
     retryOperation_p1 operation maxRetries s = (Inl messageOfUndefined, s1)"
  by (simp add: retryOperation_p1_eq retryOperation_def retryLoop_undefined)

lemma rejectsWithUndefined_fails: "fst (rejectsWithUndefined e c t) = Inl ThrownUndefined"
  by (simp add: rejectsWithUndefined_def)


lemma remoteUnit_rejected:
  "remote e (calls s) c = Inl m \<Longrightarrow>
     remoteUnit e c s =
       (Inl (Error m), s\<lparr>trace := trace s @ [Call c False], calls := calls s + 1\<rparr>)"
  by (simp add: remoteUnit_def remoteCall_def)

lemma remoteUnit_resolved:
  "remote e (calls s) c = Inr v \<Longrightarrow>
     remoteUnit e c s =
       (Inr (), s\<lparr>trace := trace s @ [Call c True], calls := calls s + 1\<rparr>)"
  by (simp add: remoteUnit_def remoteCall_def)

lemma calls_throttle: "calls (throttle s) = calls s"
  by (simp add: throttle_def)



section \<open>Slices and the chunk loop\<close>

declare slices.simps [simp del]

lemma slices_Nil: "slices n [] = []"
  by (subst slices.simps) simp

lemma slices_step: "0 < n \<Longrightarrow> xs \<noteq> [] \<Longrightarrow> slices n xs = take n xs # slices n (drop n xs)"
  by (subst slices.simps) simp

lemma concat_slices: "0 < n \<Longrightarrow> concat (slices n xs) = xs"
proof (induction n xs rule: slices.induct)
  case (1 n xs)
  show ?case
  proof (cases "xs = []")
    case True
    then show ?thesis by (simp add: slices_Nil)
  next
    case False
    with "1.prems" have "slices n xs = take n xs # slices n (drop n xs)"
      by (rule slices_step)
    with False "1.prems" "1.IH" show ?thesis by simp
  qed
qed

lemma slices_bounded: "ch \<in> set (slices n xs) \<Longrightarrow> length ch \<le> n \<and> ch \<noteq> []"
proof (induction n xs rule: slices.induct)
  case (1 n xs)
  show ?case
  proof (cases "n = 0 \<or> xs = []")
    case True
    with "1.prems" show ?thesis
      by (subst (asm) slices.simps) simp
  next
    case False
    with "1.prems" "1.IH" show ?thesis
      by (subst (asm) slices.simps) auto
  qed
qed

lemma ceil_step: "0 < c \<Longrightarrow> 0 < (n::nat) \<Longrightarrow> (n + c - 1) div c = Suc ((n - c + c - 1) div c)"
proof -
  assume pos: "0 < c" "0 < n"
  then obtain m where n: "n = Suc m" by (cases n) simp_all
  from pos have left: "(Suc m + c - 1) div c = Suc (m div c)" by (simp add: div_add_self2)
  have right: "(Suc m - c + c - 1) div c = m div c"
  proof (cases "c \<le> Suc m")
    case True
    then have "Suc m - c + c - 1 = m" by simp
    then show ?thesis by (simp only:)
  next
    case False
    then have "Suc m - c + c - 1 = c - 1" "m < c" by simp_all
    with pos show ?thesis by simp
  qed
  show ?thesis
    unfolding n left right ..
qed

lemma length_slices: "0 < n \<Longrightarrow> length (slices n xs) = (length xs + n - 1) div n"
proof (induction n xs rule: slices.induct)
  case (1 n xs)
  show ?case
  proof (cases "xs = []")
    case True
    with "1.prems" show ?thesis by (simp add: slices_Nil)
  next
    case False
    with "1.prems" have "slices n xs = take n xs # slices n (drop n xs)"
      by (rule slices_step)
    with False "1.prems" "1.IH" have "length (slices n xs) = Suc ((length xs - n + n - 1) div n)"
      by simp
    with False "1.prems" ceil_step [of n "length xs"] show ?thesis by simp
  qed
qed

lemma retryOperation_first_ok:
  "1 \<le> n \<Longrightarrow> \<forall>k c. \<exists>v. remote e k c = Inr v \<Longrightarrow>
   retryOperation (remoteUnit e c) n s =
     (Inr (), s\<lparr>trace := trace s @ [Throttle, Call c True], calls := calls s + 1\<rparr>)"
proof -
  assume n: "1 \<le> n" and ok: "\<forall>k c. \<exists>v. remote e k c = Inr v"
  from ok obtain v where "remote e (calls (throttle s)) c = Inr v" by blast
  then have "remoteUnit e c (throttle s) =
      (Inr (), (throttle s)\<lparr>trace := trace (throttle s) @ [Call c True],
          calls := calls (throttle s) + 1\<rparr>)"
    by (rule remoteUnit_resolved)
  with n show ?thesis
    by (simp add: retryOperation_def retryLoop_success throttle_def)
qed

lemma chunkLoop_ok:
  assumes "0 < CHUNK_SIZE cfg" "1 \<le> MAX_RETRIES cfg" "\<forall>k c. \<exists>v. remote e k c = Inr v"
  shows "0 < i \<Longrightarrow> chunkLoop cfg e d r data i s =
    Some (Inr (), s\<lparr>trace := trace s @
              concat (map (\<lambda>ch. [Throttle, Call (Append d r ch) True])
                        (slices (CHUNK_SIZE cfg) (drop i data))),
            calls := calls s + length (slices (CHUNK_SIZE cfg) (drop i data))\<rparr>)"
proof (induction "length data - i" arbitrary: i s rule: less_induct)
  case less
  show ?case
  proof (cases "i < length data")
    case False
    then show ?thesis
      by (subst chunkLoop.simps) (simp add: slices_Nil)
  next
    case True
    let ?c = "CHUNK_SIZE cfg"
    let ?ch = "take ?c (drop i data)"
    let ?s1 = "s\<lparr>trace := trace s @ [Throttle, Call (Append d r ?ch) True], calls := calls s + 1\<rparr>"
    from True have ne: "drop i data \<noteq> []" by simp
    have "slices ?c (drop i data) = ?ch # slices ?c (drop ?c (drop i data))"
      using assms(1) ne by (rule slices_step)
    then have sl: "slices ?c (drop i data) = ?ch # slices ?c (drop (i + ?c) data)"
      by (simp add: add.commute)
    from True assms(1) have "length data - (i + ?c) < length data - i" by simp
    from less.hyps [OF this, of ?s1] less.prems
    have "chunkLoop cfg e d r data (i + ?c) ?s1 =
        Some (Inr (), ?s1\<lparr>trace := trace ?s1 @
              concat (map (\<lambda>ch. [Throttle, Call (Append d r ch) True])
                        (slices ?c (drop (i + ?c) data))),
            calls := calls ?s1 + length (slices ?c (drop (i + ?c) data))\<rparr>)"
      by simp
    with True less.prems show ?thesis
      by (subst chunkLoop.simps)
        (simp add: retryOperation_first_ok [OF assms(2) assms(3)] sl)
  qed
qed

lemma sleep_after_call:
  "sleep ms (s\<lparr>trace := t, calls := k\<rparr>) = s\<lparr>trace := t @ [Sleep ms], calls := k\<rparr>"
  by (simp add: sleep_def)

lemma chunkLoop_p1_ok:
  assumes "0 < CHUNK_SIZE cfg" "1 \<le> MAX_RETRIES cfg" "\<forall>k c. \<exists>v. remote e k c = Inr v"
  shows "0 < i \<Longrightarrow> chunkLoop_p1 cfg e d r data i s =
    Some (Inr (), s\<lparr>trace := trace s @
              concat (map (\<lambda>ch. [Throttle, Call (Append d r ch) True, Sleep 1000])
                        (slices (CHUNK_SIZE cfg) (drop i data))),
            calls := calls s + length (slices (CHUNK_SIZE cfg) (drop i data))\<rparr>)"
proof (induction "length data - i" arbitrary: i s rule: less_induct)
  case less
  show ?case
  proof (cases "i < length data")
    case False
    then show ?thesis
      by (subst chunkLoop_p1.simps) (simp add: slices_Nil)
  next
    case True
    let ?c = "CHUNK_SIZE cfg"
    let ?ch = "take ?c (drop i data)"
    let ?s1 = "s\<lparr>trace := trace s @ [Throttle, Call (Append d r ?ch) True, Sleep 1000],
                 calls := calls s + 1\<rparr>"
    from True have ne: "drop i data \<noteq> []" by simp
    have "slices ?c (drop i data) = ?ch # slices ?c (drop ?c (drop i data))"
      using assms(1) ne by (rule slices_step)
    then have sl: "slices ?c (drop i data) = ?ch # slices ?c (drop (i + ?c) data)"
      by (simp add: add.commute)
    from True assms(1) have "length data - (i + ?c) < length data - i" by simp
    from less.hyps [OF this, of ?s1] less.prems
    have "chunkLoop_p1 cfg e d r data (i + ?c) ?s1 =
        Some (Inr (), ?s1\<lparr>trace := trace ?s1 @
              concat (map (\<lambda>ch. [Throttle, Call (Append d r ch) True, Sleep 1000])
                        (slices ?c (drop (i + ?c) data))),
            calls := calls ?s1 + length (slices ?c (drop (i + ?c) data))\<rparr>)"
      by simp
    with True less.prems show ?thesis
      by (subst chunkLoop_p1.simps)
        (simp add: retryOperation_p1_eq retryOperation_first_ok [OF assms(2) assms(3)] sl
           sleep_after_call)
  qed
qed

lemma updateDestinationInChunks_ok:
  assumes "0 < CHUNK_SIZE cfg" "1 \<le> MAX_RETRIES cfg" "\<forall>k c. \<exists>v. remote e k c = Inr v"
    and "CHUNK_SIZE cfg < length data"
  shows "updateDestinationInChunks cfg e d r data s =
    Some (Inr (), s\<lparr>trace := trace s @
              [Throttle, Call (Clear d r) True,
               Throttle, Call (Update d r (take (CHUNK_SIZE cfg) data)) True] @
              concat (map (\<lambda>ch. [Throttle, Call (Append d r ch) True])
                        (slices (CHUNK_SIZE cfg) (drop (CHUNK_SIZE cfg) data))),
            calls := calls s + 2 + length (slices (CHUNK_SIZE cfg) (drop (CHUNK_SIZE cfg) data))\<rparr>)"
proof -
  let ?c = "CHUNK_SIZE cfg"
  let ?s1 = "s\<lparr>trace := trace s @ [Throttle, Call (Clear d r) True], calls := calls s + 1\<rparr>"
  let ?s2 = "?s1\<lparr>trace := trace ?s1 @ [Throttle, Call (Update d r (take ?c data)) True],
                calls := calls ?s1 + 1\<rparr>"
  have loop: "chunkLoop cfg e d r data (0 + ?c) ?s2 =
    Some (Inr (), ?s2\<lparr>trace := trace ?s2 @
              concat (map (\<lambda>ch. [Throttle, Call (Append d r ch) True])
                        (slices ?c (drop (0 + ?c) data))),
            calls := calls ?s2 + length (slices ?c (drop (0 + ?c) data))\<rparr>)"
    using assms(1) by (intro chunkLoop_ok [OF assms(1) assms(2) assms(3)]) simp
  from assms(4) have "0 < length data" by (cases data) simp_all
  then have first: "chunkLoop cfg e d r data 0 ?s1 = chunkLoop cfg e d r data (0 + ?c) ?s2"
    by (subst chunkLoop.simps)
      (simp add: retryOperation_first_ok [OF assms(2) assms(3)])
  from assms(4) first loop show ?thesis
    unfolding updateDestinationInChunks_def
    by (simp add: retryOperation_first_ok [OF assms(2) assms(3)])
qed

lemma updateDestinationInChunks_p1_ok:
  assumes "0 < CHUNK_SIZE cfg" "1 \<le> MAX_RETRIES cfg" "\<forall>k c. \<exists>v. remote e k c = Inr v"
    and "CHUNK_SIZE cfg < length data"
  shows "updateDestinationInChunks_p1 cfg e d r data s =
    Some (Inr (), s\<lparr>trace := trace s @
              [Throttle, Call (Clear d r) True,
               Throttle, Call (Update d r (take (CHUNK_SIZE cfg) data)) True, Sleep 1000] @
              concat (map (\<lambda>ch. [Throttle, Call (Append d r ch) True, Sleep 1000])
                        (slices (CHUNK_SIZE cfg) (drop (CHUNK_SIZE cfg) data))),
            calls := calls s + 2 + length (slices (CHUNK_SIZE cfg) (drop (CHUNK_SIZE cfg) data))\<rparr>)"
proof -
  let ?c = "CHUNK_SIZE cfg"
  let ?s1 = "s\<lparr>trace := trace s @ [Throttle, Call (Clear d r) True], calls := calls s + 1\<rparr>"
  let ?s2 = "?s1\<lparr>trace := trace ?s1 @ [Throttle, Call (Update d r (take ?c data)) True, Sleep 1000],
                calls := calls ?s1 + 1\<rparr>"
  have loop: "chunkLoop_p1 cfg e d r data (0 + ?c) ?s2 =
    Some (Inr (), ?s2\<lparr>trace := trace ?s2 @
              concat (map (\<lambda>ch. [Throttle, Call (Append d r ch) True, Sleep 1000])
                        (slices ?c (drop (0 + ?c) data))),
            calls := calls ?s2 + length (slices ?c (drop (0 + ?c) data))\<rparr>)"
    using assms(1) by (intro chunkLoop_p1_ok [OF assms(1) assms(2) assms(3)]) simp
  from assms(4) have "0 < length data" by (cases data) simp_all
  then have first: "chunkLoop_p1 cfg e d r data 0 ?s1 = chunkLoop_p1 cfg e d r data (0 + ?c) ?s2"
    by (subst chunkLoop_p1.simps)
      (simp add: retryOperation_p1_eq retryOperation_first_ok [OF assms(2) assms(3)] sleep_after_call)
  from assms(4) first loop show ?thesis
    unfolding updateDestinationInChunks_p1_def
    by (simp add: retryOperation_p1_eq retryOperation_first_ok [OF assms(2) assms(3)])
qed

lemma remoteCalls_append: "remoteCalls (xs @ ys) = remoteCalls xs @ remoteCalls ys"
  by (induction xs rule: remoteCalls.induct) simp_all

lemma sleeps_append: "sleeps (xs @ ys) = sleeps xs @ sleeps ys"
  by (induction xs rule: sleeps.induct) simp_all

lemma remoteCalls_chunks:
  "remoteCalls (concat (map (\<lambda>ch. [Throttle, Call (f ch) True]) chs)) = map f chs"
  by (induction chs) simp_all

lemma remoteCalls_chunks_p1:
  "remoteCalls (concat (map (\<lambda>ch. [Throttle, Call (f ch) True, Sleep 1000]) chs)) = map f chs"
  by (induction chs) simp_all

lemma sleeps_chunks:
  "sleeps (concat (map (\<lambda>ch. [Throttle, Call (f ch) True]) chs)) = []"
  by (induction chs) simp_all

lemma sleeps_chunks_p1:
  "sleeps (concat (map (\<lambda>ch. [Throttle, Call (f ch) True, Sleep 1000]) chs)) =
     replicate (length chs) 1000"
  by (induction chs) simp_all

lemma added_extended: "added s (s\<lparr>trace := trace s @ evs, calls := k\<rparr>) = evs"
  by (simp add: added_def)

section \<open>What the steps add to the trace\<close>

lemma onlyAdds_refl: "onlyAdds P s s"
  by (simp add: onlyAdds_def)

lemma onlyAdds_trans: "onlyAdds P s t \<Longrightarrow> onlyAdds P t u \<Longrightarrow> onlyAdds P s u"
  by (auto simp: onlyAdds_def)

lemma onlyAdds_mono: "onlyAdds P s t \<Longrightarrow> (\<And>ev. P ev \<Longrightarrow> Q ev) \<Longrightarrow> onlyAdds Q s t"
  by (auto simp: onlyAdds_def list_all_iff)

lemma onlyAdds_throttle: "P Throttle \<Longrightarrow> onlyAdds P s (throttle s)"
  by (simp add: onlyAdds_def throttle_def)

lemma onlyAdds_sleep: "P (Sleep ms) \<Longrightarrow> onlyAdds P s (sleep ms s)"
  by (simp add: onlyAdds_def sleep_def)

lemma onlyAdds_counters:
  "onlyAdds P s (t\<lparr>processedCount := n\<rparr>) = onlyAdds P s t"
  "onlyAdds P s (t\<lparr>errorCount := n\<rparr>) = onlyAdds P s t"
  "onlyAdds P (s\<lparr>processedCount := n\<rparr>) t = onlyAdds P s t"
  "onlyAdds P (s\<lparr>errorCount := n\<rparr>) t = onlyAdds P s t"
  by (simp_all add: onlyAdds_def)

lemma onlyAdds_remoteCall:
  "P (Call c True) \<Longrightarrow> P (Call c False) \<Longrightarrow> onlyAdds P s (snd (remoteCall e c s))"
  by (simp add: onlyAdds_def remoteCall_def split: sum.split)

lemma snd_remoteUnit: "snd (remoteUnit e c s) = snd (remoteCall e c s)"
  by (cases "remoteCall e c s") (simp add: remoteUnit_def split: sum.split)

lemma snd_remoteValues: "snd (remoteValues e c s) = snd (remoteCall e c s)"
  by (cases "remoteCall e c s") (simp add: remoteValues_def split: sum.split)

lemma onlyAdds_remoteUnit:
  "P (Call c True) \<Longrightarrow> P (Call c False) \<Longrightarrow> onlyAdds P s (snd (remoteUnit e c s))"
  by (simp add: snd_remoteUnit onlyAdds_remoteCall)

lemma onlyAdds_remoteValues:
  "P (Call c True) \<Longrightarrow> P (Call c False) \<Longrightarrow> onlyAdds P s (snd (remoteValues e c s))"
  by (simp add: snd_remoteValues onlyAdds_remoteCall)

text \<open>The retry loop adds throttles, sleeps and what the operation adds.\<close>

lemma onlyAdds_retryLoop:
  "(\<forall>t. onlyAdds P t (snd (operation t))) \<Longrightarrow> P Throttle \<Longrightarrow> (\<forall>ms. P (Sleep ms)) \<Longrightarrow>
     onlyAdds P s (snd (retryLoop operation maxRetries attempt lastError s))"
proof (induction operation maxRetries attempt lastError s rule: retryLoop.induct)
  case (1 operation maxRetries attempt lastError s)
  obtain res s1 where op: "operation (throttle s) = (res, s1)"
    by (cases "operation (throttle s)")
  from "1.prems"(1) op have "onlyAdds P (throttle s) s1"
    by (metis snd_conv)
  with "1.prems"(2) have s1: "onlyAdds P s s1"
    using onlyAdds_throttle onlyAdds_trans by blast
  show ?case
  proof (cases "attempt \<le> maxRetries")
    case False
    then show ?thesis
      by (simp add: retryLoop_exhausted onlyAdds_refl)
  next
    case le: True
    show ?thesis
    proof (cases res)
      case (Inr v)
      with le op s1 show ?thesis
        by (simp add: retryLoop_success)
    next
      case (Inl x)
      show ?thesis
      proof (cases "attempt = maxRetries")
        case True
        with op Inl s1 show ?thesis
          by (simp add: retryLoop_last)
      next
        case False
        with le have lt: "attempt < maxRetries" by simp
        show ?thesis
        proof (cases x)
          case ThrownUndefined
          with lt op Inl s1 show ?thesis
            by (simp add: retryLoop_undefined)
        next
          case (Error m)
          from "1.prems"(3) have "onlyAdds P s1 (sleep (backoff attempt) s1)"
            by (simp add: onlyAdds_sleep)
          with s1 have "onlyAdds P s (sleep (backoff attempt) s1)"
            by (rule onlyAdds_trans)
          moreover from "1.IH" [of res s1 x m] le op Inl False Error "1.prems"
          have "onlyAdds P (sleep (backoff attempt) s1)
              (snd (retryLoop operation maxRetries (attempt + 1) x (sleep (backoff attempt) s1)))"
            by simp
          ultimately have "onlyAdds P s
              (snd (retryLoop operation maxRetries (attempt + 1) x (sleep (backoff attempt) s1)))"
            by (rule onlyAdds_trans)
          with lt op Inl Error show ?thesis
            by (simp add: retryLoop_again)
        qed
      qed
    qed
  qed
qed

lemma onlyAdds_retryOperation:
  "(\<forall>t. onlyAdds P t (snd (operation t))) \<Longrightarrow> P Throttle \<Longrightarrow> (\<forall>ms. P (Sleep ms)) \<Longrightarrow>
     onlyAdds P s (snd (retryOperation operation maxRetries s))"
  by (simp add: retryOperation_def onlyAdds_retryLoop)

text \<open>The counters are not touched by the retry loop when the operation leaves them alone.\<close>

lemma counters_retryLoop:
  "(\<forall>t. processedCount (snd (operation t)) = processedCount t \<and>
        errorCount (snd (operation t)) = errorCount t) \<Longrightarrow>
     processedCount (snd (retryLoop operation maxRetries attempt lastError s)) = processedCount s \<and>
     errorCount (snd (retryLoop operation maxRetries attempt lastError s)) = errorCount s"
proof (induction operation maxRetries attempt lastError s rule: retryLoop.induct)
  case (1 operation maxRetries attempt lastError s)
  obtain res s1 where op: "operation (throttle s) = (res, s1)"
    by (cases "operation (throttle s)")
  from "1.prems" op have s1: "processedCount s1 = processedCount s \<and> errorCount s1 = errorCount s"
    by (metis snd_conv throttle_def state.select_convs(3,4) state.surjective state.update_convs(1))
  show ?case
  proof (cases "attempt \<le> maxRetries")
    case False
    then show ?thesis
      by (simp add: retryLoop_exhausted)
  next
    case le: True
    show ?thesis
    proof (cases res)
      case (Inr v)
      with le op s1 show ?thesis
        by (simp add: retryLoop_success)
    next
      case (Inl x)
      show ?thesis
      proof (cases "attempt = maxRetries")
        case True
        with op Inl s1 show ?thesis
          by (simp add: retryLoop_last)
      next
        case False
        with le have lt: "attempt < maxRetries" by simp
        show ?thesis
        proof (cases x)
          case ThrownUndefined
          with lt op Inl s1 show ?thesis
            by (simp add: retryLoop_undefined)
        next
          case (Error m)
          from "1.IH" [of res s1 x m] le op Inl False Error "1.prems" s1
          have "processedCount (snd (retryLoop operation maxRetries (attempt + 1) x
                  (sleep (backoff attempt) s1))) = processedCount s \<and>
                errorCount (snd (retryLoop operation maxRetries (attempt + 1) x
                  (sleep (backoff attempt) s1))) = errorCount s"
            by (simp add: sleep_def)
          with lt op Inl Error show ?thesis
            by (simp add: retryLoop_again)
        qed
      qed
    qed
  qed
qed

lemma messageOfUndefined_not_undefined: "messageOfUndefined \<noteq> ThrownUndefined"
  by (simp add: messageOfUndefined_def)

lemma remoteCall_not_undefined: "fst (remoteCall e c s) \<noteq> Inl ThrownUndefined"
  by (simp add: remoteCall_def split: sum.split)

lemma remoteUnit_not_undefined: "fst (remoteUnit e c s) \<noteq> Inl ThrownUndefined"
  using remoteCall_not_undefined [of e c s]
  by (cases "remoteCall e c s") (auto simp: remoteUnit_def split: sum.split)

lemma remoteValues_not_undefined: "fst (remoteValues e c s) \<noteq> Inl ThrownUndefined"
  using remoteCall_not_undefined [of e c s]
  by (cases "remoteCall e c s") (auto simp: remoteValues_def split: sum.split)

lemma retryLoop_not_undefined:
  "\<forall>t. fst (operation t) \<noteq> Inl ThrownUndefined \<Longrightarrow> attempt \<le> maxRetries \<Longrightarrow>
     fst (retryLoop operation maxRetries attempt lastError s) \<noteq> Inl ThrownUndefined"
proof (induction operation maxRetries attempt lastError s rule: retryLoop.induct)
  case (1 operation maxRetries attempt lastError s)
  obtain res s1 where op: "operation (throttle s) = (res, s1)"
    by (cases "operation (throttle s)")
  with "1.prems"(1) have res: "res \<noteq> Inl ThrownUndefined"
    by (metis fst_conv)
  show ?case
  proof (cases res)
    case (Inr v)
    with "1.prems"(2) op show ?thesis
      by (simp add: retryLoop_success)
  next
    case (Inl x)
    show ?thesis
    proof (cases "attempt = maxRetries")
      case True
      with op Inl res show ?thesis
        by (simp add: retryLoop_last)
    next
      case False
      with "1.prems"(2) have lt: "attempt < maxRetries" by simp
      from Inl res obtain m where x: "x = Error m"
        by (cases x) simp_all
      from lt have "attempt + 1 \<le> maxRetries" by simp
      with "1.IH" [of res s1 x m] "1.prems" op Inl False x
      have "fst (retryLoop operation maxRetries (attempt + 1) x (sleep (backoff attempt) s1))
          \<noteq> Inl ThrownUndefined"
        by simp
      with lt op Inl x show ?thesis
        by (simp add: retryLoop_again)
    qed
  qed
qed

lemma retryOperation_not_undefined:
  "\<forall>t. fst (operation t) \<noteq> Inl ThrownUndefined \<Longrightarrow> 1 \<le> maxRetries \<Longrightarrow>
     fst (retryOperation operation maxRetries s) \<noteq> Inl ThrownUndefined"
  by (simp add: retryOperation_def retryLoop_not_undefined)

lemma retryOperation_Error_attempted:
  "retryOperation operation maxRetries s = (Inl (Error m), s1) \<Longrightarrow> 1 \<le> maxRetries"
proof (rule ccontr)
  assume r: "retryOperation operation maxRetries s = (Inl (Error m), s1)"
  assume "\<not> 1 \<le> maxRetries"
  then have "retryOperation operation maxRetries s = (Inl ThrownUndefined, s)"
    by (simp add: retryOperation_def retryLoop_exhausted)
  with r show False by simp
qed

text \<open>With at least one attempt, the retry of a remote call starts by a throttle and the call.\<close>

lemma retryOperation_remoteUnit_starts:
  assumes "1 \<le> maxRetries"
  shows "\<exists>ok rest. trace (snd (retryOperation (remoteUnit e c) maxRetries s)) =
           trace s @ Throttle # Call c ok # rest"
proof (cases "remote e (calls s) c")
  case (Inr v)
  then have "remoteUnit e c (throttle s) =
      (Inr (), (throttle s)\<lparr>trace := trace (throttle s) @ [Call c True],
          calls := calls (throttle s) + 1\<rparr>)"
    by (simp add: remoteUnit_resolved calls_throttle)
  with assms have "retryOperation (remoteUnit e c) maxRetries s =
      (Inr (), (throttle s)\<lparr>trace := trace (throttle s) @ [Call c True],
          calls := calls (throttle s) + 1\<rparr>)"
    by (simp add: retryOperation_def retryLoop_success)
  then show ?thesis
    by (auto simp: throttle_def)
next
  case (Inl m)
  let ?s1 = "(throttle s)\<lparr>trace := trace (throttle s) @ [Call c False],
          calls := calls (throttle s) + 1\<rparr>"
  from Inl have op: "remoteUnit e c (throttle s) = (Inl (Error m), ?s1)"
    by (simp add: remoteUnit_rejected calls_throttle)
  show ?thesis
  proof (cases "maxRetries = 1")
    case True
    with op have "retryOperation (remoteUnit e c) maxRetries s = (Inl (Error m), ?s1)"
      by (simp add: retryOperation_def retryLoop_last)
    then show ?thesis
      by (auto simp: throttle_def)
  next
    case False
    with assms have lt: "1 < maxRetries" by simp
    let ?s2 = "sleep (backoff 1) ?s1"
    from lt op have step: "retryOperation (remoteUnit e c) maxRetries s =
        retryLoop (remoteUnit e c) maxRetries (1 + 1) (Error m) ?s2"
      unfolding retryOperation_def by (rule retryLoop_again)
    have "onlyAdds (\<lambda>ev. True) ?s2
        (snd (retryLoop (remoteUnit e c) maxRetries (1 + 1) (Error m) ?s2))"
      by (rule onlyAdds_retryLoop) (simp_all add: onlyAdds_remoteUnit)
    then obtain evs where "trace (snd (retryLoop (remoteUnit e c) maxRetries (1 + 1) (Error m) ?s2)) =
        trace ?s2 @ evs"
      by (auto simp: onlyAdds_def)
    then show ?thesis
      unfolding step by (auto simp: sleep_def throttle_def)
  qed
qed

lemma counters_retryOperation_remoteUnit:
  "processedCount (snd (retryOperation (remoteUnit e c) maxRetries s)) = processedCount s \<and>
   errorCount (snd (retryOperation (remoteUnit e c) maxRetries s)) = errorCount s"
  unfolding retryOperation_def
  by (rule counters_retryLoop) (simp add: snd_remoteUnit remoteCall_def split: sum.split)

lemma counters_retryOperation_remoteValues:
  "processedCount (snd (retryOperation (remoteValues e c) maxRetries s)) = processedCount s \<and>
   errorCount (snd (retryOperation (remoteValues e c) maxRetries s)) = errorCount s"
  unfolding retryOperation_def
  by (rule counters_retryLoop) (simp add: snd_remoteValues remoteCall_def split: sum.split)

text \<open>
  \<open>logToSheet\<close> with at least one attempt: it returns normally whatever the remote
  service answers, leaves the counters alone, and has tried the append to the log range.
\<close>

lemma logToSheet_best_effort:
  assumes "1 \<le> MAX_RETRIES cfg"
  shows "\<exists>s' ok rest. logToSheet cfg e d m s = (Inr (), s') \<and>
     processedCount s' = processedCount s \<and> errorCount s' = errorCount s \<and>
     trace s' = trace s @ Throttle #
        Call (Append d (Str logRange) [[Str (nowStr e (length (trace s))), Str m]]) ok # rest"
proof -
  let ?c = "Append d (Str logRange) [[Str (nowStr e (length (trace s))), Str m]]"
  obtain res s1 where r: "retryOperation (remoteUnit e ?c) (MAX_RETRIES cfg) s = (res, s1)"
    by (cases "retryOperation (remoteUnit e ?c) (MAX_RETRIES cfg) s")
  from retryOperation_not_undefined [of "remoteUnit e ?c" "MAX_RETRIES cfg" s] assms r
  have ne: "res \<noteq> Inl ThrownUndefined"
    by (simp add: remoteUnit_not_undefined)
  from retryOperation_remoteUnit_starts [OF assms, of e ?c s] r
  obtain ok rest where tr: "trace s1 = trace s @ Throttle # Call ?c ok # rest"
    by auto
  from counters_retryOperation_remoteUnit [of e ?c "MAX_RETRIES cfg" s] r
  have cnt: "processedCount s1 = processedCount s \<and> errorCount s1 = errorCount s"
    by simp
  from r ne have "logToSheet cfg e d m s = (Inr (), s1)"
    by (auto simp: logToSheet_def Let_def split: sum.split thrown.split)
  with tr cnt show ?thesis by blast
qed

section \<open>The structure of processBatch\<close>

lemma processBatch_Nil: "processBatch cfg e [] s = ([], s)"
  by (simp add: processBatch_def)

lemma processBatch_Cons:
  "processBatch cfg e (r # batch) s =
     (settledValue (fst (batchItem cfg e r s)) @
        fst (processBatch cfg e batch (snd (batchItem cfg e r s))),
      snd (processBatch cfg e batch (snd (batchItem cfg e r s))))"
  by (simp add: processBatch_def split: prod.split)

lemma processBatch_append:
  "processBatch cfg e (xs @ ys) s =
     (fst (processBatch cfg e xs s) @ fst (processBatch cfg e ys (snd (processBatch cfg e xs s))),
      snd (processBatch cfg e ys (snd (processBatch cfg e xs s))))"
proof (induction xs arbitrary: s)
  case Nil
  show ?case by (simp add: processBatch_Nil)
next
  case (Cons r xs)
  show ?case
    by (simp add: processBatch_Cons Cons.IH)
qed

text \<open>
  With a positive batch size the batch loop ends, and (the items of a batch running one
  after the other) gives what one batch of all the rows gives.
\<close>

lemma batchLoop_eq:
  assumes "0 < BATCH_SIZE cfg"
  shows "batchLoop cfg e rows i finalData s =
     Some (finalData @ fst (processBatch cfg e (drop i rows) s),
           snd (processBatch cfg e (drop i rows) s))"
proof (induction "length rows - i" arbitrary: i finalData s rule: less_induct)
  case less
  show ?case
  proof (cases "i < length rows")
    case False
    then show ?thesis
      by (subst batchLoop.simps) (simp add: processBatch_Nil)
  next
    case True
    let ?b = "BATCH_SIZE cfg"
    let ?batch = "take ?b (drop i rows)"
    have split: "drop i rows = ?batch @ drop (i + ?b) rows"
      by (metis append_take_drop_id drop_drop add.commute)
    from True assms have "length rows - (i + ?b) < length rows - i" by simp
    note IH = less.hyps [OF this]
    have "processBatch cfg e (drop i rows) s =
        (fst (processBatch cfg e ?batch s) @
           fst (processBatch cfg e (drop (i + ?b) rows) (snd (processBatch cfg e ?batch s))),
         snd (processBatch cfg e (drop (i + ?b) rows) (snd (processBatch cfg e ?batch s))))"
      by (subst split) (rule processBatch_append)
    with True show ?thesis
      by (subst batchLoop.simps) (simp add: IH split: prod.split)
  qed
qed

text \<open>An item whose fetch threw an \<open>Error\<close>.\<close>

lemma batchItem_fetch_failed:
  assumes "processSheetData cfg e (idx r 0) (idx r 1) s = (Inl (Error m), s1)"
  shows "\<exists>s' ok rest. batchItem cfg e r s = (Fulfilled [], s') \<and>
     errorCount s' = errorCount s + 1 \<and> processedCount s' = processedCount s \<and>
     trace s' = trace s1 @ Throttle #
        Call (Append (idx r 2) (Str logRange) [[Str (nowStr e (length (trace s1))), Str m]]) ok # rest"
proof -
  from assms have max: "1 \<le> MAX_RETRIES cfg"
    unfolding processSheetData_def by (rule retryOperation_Error_attempted)
  from assms counters_retryOperation_remoteValues [of e "Get (idx r 0) (idx r 1)" "MAX_RETRIES cfg" s]
  have cnt: "processedCount s1 = processedCount s \<and> errorCount s1 = errorCount s"
    by (simp add: processSheetData_def)
  let ?s2 = "s1\<lparr>errorCount := errorCount s1 + 1\<rparr>"
  from logToSheet_best_effort [OF max, of e "idx r 2" m ?s2]
  obtain s' ok rest where log: "logToSheet cfg e (idx r 2) m ?s2 = (Inr (), s')"
      "processedCount s' = processedCount ?s2" "errorCount s' = errorCount ?s2"
      "trace s' = trace ?s2 @ Throttle #
        Call (Append (idx r 2) (Str logRange) [[Str (nowStr e (length (trace ?s2))), Str m]]) ok # rest"
    by blast
  from assms log(1) have "batchItem cfg e r s = (Fulfilled [], s')"
    by (simp add: batchItem_def Let_def)
  with log cnt show ?thesis by simp
qed

text \<open>An item whose fetch returned rows.\<close>

lemma batchItem_fetch_returned:
  assumes "processSheetData cfg e (idx r 0) (idx r 1) s = (Inr rData, s1)"
  shows "fst (batchItem cfg e r s) =
      Fulfilled (map (\<lambda>dataRow. dataRow @ [Str (sourceUrl r)]) rData) \<and>
    errorCount (snd (batchItem cfg e r s)) = errorCount s \<and>
    trace (snd (batchItem cfg e r s)) = trace s1"
proof -
  from assms counters_retryOperation_remoteValues [of e "Get (idx r 0) (idx r 1)" "MAX_RETRIES cfg" s]
  have "errorCount s1 = errorCount s"
    by (simp add: processSheetData_def)
  with assms show ?thesis
    by (cases rData) (simp_all add: batchItem_def)
qed

section \<open>The write targets of run\<close>

lemma onlyAdds_processSheetData:
  "onlyAdds (writesOnlyTo d r) s (snd (processSheetData cfg e a b s))"
  unfolding processSheetData_def
  by (rule onlyAdds_retryOperation) (simp_all add: onlyAdds_remoteValues)

lemma onlyAdds_getConfigurationData:
  "onlyAdds (writesOnlyTo d r) s (snd (getConfigurationData cfg e s))"
  unfolding getConfigurationData_def
  by (rule onlyAdds_retryOperation) (simp_all add: onlyAdds_remoteValues)

lemma snd_logToSheet:
  "snd (logToSheet cfg e a m s) =
     snd (retryOperation
            (remoteUnit e (Append a (Str logRange) [[Str (nowStr e (length (trace s))), Str m]]))
            (MAX_RETRIES cfg) s)"
  by (simp add: logToSheet_def Let_def split: prod.split sum.split thrown.split)

lemma onlyAdds_logToSheet:
  "onlyAdds (writesOnlyTo d r) s (snd (logToSheet cfg e a m s))"
  unfolding snd_logToSheet
  by (rule onlyAdds_retryOperation) (simp_all add: onlyAdds_remoteUnit)

lemma onlyAdds_batchItem:
  "onlyAdds (writesOnlyTo d r) s (snd (batchItem cfg e job s))"
proof -
  obtain res s1 where fetch: "processSheetData cfg e (idx job 0) (idx job 1) s = (res, s1)"
    by (cases "processSheetData cfg e (idx job 0) (idx job 1) s")
  with onlyAdds_processSheetData [of d r s cfg e "idx job 0" "idx job 1"]
  have s1: "onlyAdds (writesOnlyTo d r) s s1" by simp
  show ?thesis
  proof (cases res)
    case (Inr rData)
    with fetch s1 show ?thesis
      by (simp add: batchItem_def onlyAdds_counters)
  next
    case (Inl x)
    let ?s2 = "s1\<lparr>errorCount := errorCount s1 + 1\<rparr>"
    from s1 have s2: "onlyAdds (writesOnlyTo d r) s ?s2"
      by (simp add: onlyAdds_counters)
    show ?thesis
    proof (cases x)
      case ThrownUndefined
      with fetch Inl s2 show ?thesis
        by (simp add: batchItem_def Let_def)
    next
      case (Error m)
      obtain lr s3 where log: "logToSheet cfg e (idx job 2) m ?s2 = (lr, s3)"
        by (cases "logToSheet cfg e (idx job 2) m ?s2")
      have "onlyAdds (writesOnlyTo d r) ?s2 (snd (logToSheet cfg e (idx job 2) m ?s2))"
        by (rule onlyAdds_logToSheet)
      with s2 have "onlyAdds (writesOnlyTo d r) s (snd (logToSheet cfg e (idx job 2) m ?s2))"
        by (rule onlyAdds_trans)
      with log have "onlyAdds (writesOnlyTo d r) s s3" by simp
      with fetch Inl Error log show ?thesis
        by (cases lr) (simp_all add: batchItem_def Let_def)
    qed
  qed
qed

lemma onlyAdds_processBatch:
  "onlyAdds (writesOnlyTo d r) s (snd (processBatch cfg e batch s))"
proof (induction batch arbitrary: s)
  case Nil
  show ?case by (simp add: processBatch_Nil onlyAdds_refl)
next
  case (Cons job batch)
  have "onlyAdds (writesOnlyTo d r) s (snd (batchItem cfg e job s))"
    by (rule onlyAdds_batchItem)
  then show ?case
    unfolding processBatch_Cons snd_conv
    using Cons.IH by (rule onlyAdds_trans)
qed

lemma onlyAdds_updateDestination:
  "onlyAdds (writesOnlyTo d r) s (snd (updateDestination cfg e d r data s))"
proof -
  obtain res s1 where clear: "retryOperation (remoteUnit e (Clear d r)) (MAX_RETRIES cfg) s = (res, s1)"
    by (cases "retryOperation (remoteUnit e (Clear d r)) (MAX_RETRIES cfg) s")
  have "onlyAdds (writesOnlyTo d r) s (snd (retryOperation (remoteUnit e (Clear d r)) (MAX_RETRIES cfg) s))"
    by (rule onlyAdds_retryOperation) (simp_all add: onlyAdds_remoteUnit)
  with clear have s1: "onlyAdds (writesOnlyTo d r) s s1" by simp
  have "onlyAdds (writesOnlyTo d r) s1
      (snd (retryOperation (remoteUnit e (Update d r data)) (MAX_RETRIES cfg) s1))"
    by (rule onlyAdds_retryOperation) (simp_all add: onlyAdds_remoteUnit)
  with s1 have "onlyAdds (writesOnlyTo d r) s
      (snd (retryOperation (remoteUnit e (Update d r data)) (MAX_RETRIES cfg) s1))"
    by (rule onlyAdds_trans)
  with clear s1 show ?thesis
    by (cases res) (simp_all add: updateDestination_def)
qed

lemma chunkLoop_returns:
  assumes "0 < CHUNK_SIZE cfg"
  shows "\<exists>res s'. chunkLoop cfg e d r data i s = Some (res, s') \<and>
           onlyAdds (writesOnlyTo d r) s s'"
proof (induction "length data - i" arbitrary: i s rule: less_induct)
  case less
  show ?case
  proof (cases "i < length data")
    case False
    then have "chunkLoop cfg e d r data i s = Some (Inr (), s)"
      by (subst chunkLoop.simps) simp
    then show ?thesis
      using onlyAdds_refl by blast
  next
    case True
    let ?c = "CHUNK_SIZE cfg"
    let ?call = "if i = 0 then Update d r (take ?c (drop i data))
                 else Append d r (take ?c (drop i data))"
    obtain res s1 where w: "retryOperation (remoteUnit e ?call) (MAX_RETRIES cfg) s = (res, s1)"
      by (cases "retryOperation (remoteUnit e ?call) (MAX_RETRIES cfg) s")
    have "onlyAdds (writesOnlyTo d r) s
        (snd (retryOperation (remoteUnit e ?call) (MAX_RETRIES cfg) s))"
      by (rule onlyAdds_retryOperation) (simp_all add: onlyAdds_remoteUnit)
    with w have s1: "onlyAdds (writesOnlyTo d r) s s1" by simp
    show ?thesis
    proof (cases res)
      case (Inl x)
      with True w have "chunkLoop cfg e d r data i s = Some (Inl x, s1)"
        by (subst chunkLoop.simps) simp
      with s1 show ?thesis by blast
    next
      case (Inr u)
      from True assms have "length data - (i + ?c) < length data - i" by simp
      from less.hyps [OF this, of s1]
      obtain res' s' where rest: "chunkLoop cfg e d r data (i + ?c) s1 = Some (res', s')"
          "onlyAdds (writesOnlyTo d r) s1 s'"
        by blast
      from True w Inr have "chunkLoop cfg e d r data i s = chunkLoop cfg e d r data (i + ?c) s1"
        by (subst chunkLoop.simps) simp
      with rest s1 show ?thesis
        using onlyAdds_trans by metis
    qed
  qed
qed

lemma updateDestinationInChunks_returns:
  assumes "0 < CHUNK_SIZE cfg"
  shows "\<exists>res s'. updateDestinationInChunks cfg e d r data s = Some (res, s') \<and>
           onlyAdds (writesOnlyTo d r) s s'"
proof (cases "length data \<le> CHUNK_SIZE cfg")
  case True
  then have "updateDestinationInChunks cfg e d r data s =
      Some (fst (updateDestination cfg e d r data s), snd (updateDestination cfg e d r data s))"
    by (simp add: updateDestinationInChunks_def)
  then show ?thesis
    using onlyAdds_updateDestination by blast
next
  case False
  obtain res s1 where clear: "retryOperation (remoteUnit e (Clear d r)) (MAX_RETRIES cfg) s = (res, s1)"
    by (cases "retryOperation (remoteUnit e (Clear d r)) (MAX_RETRIES cfg) s")
  have "onlyAdds (writesOnlyTo d r) s (snd (retryOperation (remoteUnit e (Clear d r)) (MAX_RETRIES cfg) s))"
    by (rule onlyAdds_retryOperation) (simp_all add: onlyAdds_remoteUnit)
  with clear have s1: "onlyAdds (writesOnlyTo d r) s s1" by simp
  show ?thesis
  proof (cases res)
    case (Inl x)
    with False clear have "updateDestinationInChunks cfg e d r data s = Some (Inl x, s1)"
      by (simp add: updateDestinationInChunks_def)
    with s1 show ?thesis by blast
  next
    case (Inr u)
    from chunkLoop_returns [OF assms, of e d r data 0 s1]
    obtain res' s' where rest: "chunkLoop cfg e d r data 0 s1 = Some (res', s')"
        "onlyAdds (writesOnlyTo d r) s1 s'"
      by blast
    from False clear Inr have "updateDestinationInChunks cfg e d r data s =
        chunkLoop cfg e d r data 0 s1"
      by (simp add: updateDestinationInChunks_def)
    with rest s1 show ?thesis
      using onlyAdds_trans by metis
  qed
qed

lemma onlyAdds_keeps_start:
  "trace t = trace s @ a # b # rest \<Longrightarrow> onlyAdds P t u \<Longrightarrow>
     \<exists>rest'. trace u = trace s @ a # b # rest'"
  by (auto simp: onlyAdds_def)

lemma mem_added:
  "onlyAdds P s t \<Longrightarrow> trace u = trace t @ a # b # rest \<Longrightarrow> onlyAdds Q u v \<Longrightarrow>
     b \<in> set (added s v)"
  by (auto simp: onlyAdds_def added_def)

lemma retryOperation_values_attempted:
  "retryOperation operation maxRetries s = (Inr v, s1) \<Longrightarrow> 1 \<le> maxRetries"
proof (rule ccontr)
  assume r: "retryOperation operation maxRetries s = (Inr v, s1)"
  assume "\<not> 1 \<le> maxRetries"
  then have "retryOperation operation maxRetries s = (Inl ThrownUndefined, s)"
    by (simp add: retryOperation_def retryLoop_exhausted)
  with r show False by simp
qed

text \<open>Both write paths of \<open>run\<close> return, write to the given target only, and start by its clear.\<close>

lemma write_stage:
  assumes "0 < CHUNK_SIZE cfg" and "1 \<le> MAX_RETRIES cfg"
  shows "\<exists>res s' ok rest.
     (if length data > CHUNK_SIZE cfg then updateDestinationInChunks cfg e d r data s
      else Some (updateDestination cfg e d r data s)) = Some (res, s') \<and>
     onlyAdds (writesOnlyTo d r) s s' \<and>
     trace s' = trace s @ Throttle # Call (Clear d r) ok # rest"
proof -
  let ?P = "writesOnlyTo d r"
  obtain cres s1 where clear:
    "retryOperation (remoteUnit e (Clear d r)) (MAX_RETRIES cfg) s = (cres, s1)"
    by (cases "retryOperation (remoteUnit e (Clear d r)) (MAX_RETRIES cfg) s")
  from retryOperation_remoteUnit_starts [OF assms(2), of e "Clear d r" s] clear
  obtain ok rest where start: "trace s1 = trace s @ Throttle # Call (Clear d r) ok # rest"
    by auto
  have "onlyAdds ?P s (snd (retryOperation (remoteUnit e (Clear d r)) (MAX_RETRIES cfg) s))"
    by (rule onlyAdds_retryOperation) (simp_all add: onlyAdds_remoteUnit)
  with clear have s1: "onlyAdds ?P s s1" by simp
  show ?thesis
  proof (cases cres)
    case (Inl x)
    with clear have "(if length data > CHUNK_SIZE cfg then updateDestinationInChunks cfg e d r data s
      else Some (updateDestination cfg e d r data s)) = Some (Inl x, s1)"
      by (simp add: updateDestinationInChunks_def updateDestination_def)
    with s1 start show ?thesis by blast
  next
    case (Inr u)
    show ?thesis
    proof (cases "length data > CHUNK_SIZE cfg")
      case True
      from chunkLoop_returns [OF assms(1), of e d r data 0 s1]
      obtain res' s' where rest: "chunkLoop cfg e d r data 0 s1 = Some (res', s')"
          "onlyAdds ?P s1 s'"
        by blast
      from True clear Inr rest(1)
      have run: "(if length data > CHUNK_SIZE cfg then updateDestinationInChunks cfg e d r data s
          else Some (updateDestination cfg e d r data s)) = Some (res', s')"
        by (simp add: updateDestinationInChunks_def)
      from s1 rest(2) have all: "onlyAdds ?P s s'" by (rule onlyAdds_trans)
      from onlyAdds_keeps_start [OF start rest(2)] run all show ?thesis by blast
    next
      case False
      let ?u = "retryOperation (remoteUnit e (Update d r data)) (MAX_RETRIES cfg) s1"
      have upd: "onlyAdds ?P s1 (snd ?u)"
        by (rule onlyAdds_retryOperation) (simp_all add: onlyAdds_remoteUnit)
      from False clear Inr
      have run: "(if length data > CHUNK_SIZE cfg then updateDestinationInChunks cfg e d r data s
          else Some (updateDestination cfg e d r data s)) = Some (fst ?u, snd ?u)"
        by (simp add: updateDestination_def)
      from s1 upd have all: "onlyAdds ?P s (snd ?u)" by (rule onlyAdds_trans)
      from onlyAdds_keeps_start [OF start upd] run all show ?thesis by blast
    qed
  qed
qed

lemma onlyAdds_runCatch:
  "onlyAdds (writesOnlyTo d r) s (snd (runCatch cfg e error s))"
proof (cases error)
  case ThrownUndefined
  then show ?thesis
    by (simp add: runCatch_def onlyAdds_refl)
next
  case (Error m)
  obtain res s1 where conf: "getConfigurationData cfg e s = (res, s1)"
    by (cases "getConfigurationData cfg e s")
  with onlyAdds_getConfigurationData [of d r s cfg e]
  have s1: "onlyAdds (writesOnlyTo d r) s s1" by simp
  show ?thesis
  proof (cases res)
    case (Inl logError)
    with Error conf s1 show ?thesis
      by (cases logError) (simp_all add: runCatch_def)
  next
    case (Inr rows)
    show ?thesis
    proof (cases "length rows > 0")
      case False
      with Error conf Inr s1 show ?thesis
        by (simp add: runCatch_def)
    next
      case True
      let ?log = "logToSheet cfg e (idx (rows ! (length rows - 1)) 2) (''FINAL ERROR: '' @ m) s1"
      obtain lr s2 where log: "?log = (lr, s2)"
        by (cases ?log)
      have "onlyAdds (writesOnlyTo d r) s1 (snd ?log)"
        by (rule onlyAdds_logToSheet)
      with s1 log have s2: "onlyAdds (writesOnlyTo d r) s s2"
        using onlyAdds_trans by fastforce
      show ?thesis
      proof (cases lr)
        case (Inl logError)
        with Error conf Inr True log s2 show ?thesis
          by (cases logError) (simp_all add: runCatch_def)
      next
        case inr: (Inr u)
        with Error conf Inr True log s2 show ?thesis
          by (simp add: runCatch_def)
      qed
    qed
  qed
qed

text \<open>
  \<open>run\<close> of \<open>src/index.js\<close>: once the configuration is read and has a row, the run
  returns; every clear and update it then issues, and every append outside the status
  logs, goes to the columns 3 and 4 of the last configuration row; and the clear of this
  target is issued.
\<close>

lemma run_writes_to_last_row:
  assumes "0 < BATCH_SIZE cfg" and "0 < CHUNK_SIZE cfg"
    and "getConfigurationData cfg e s = (Inr rows, s1)" and "rows \<noteq> []"
  shows "\<exists>res s'. run cfg e s = Some (res, s') \<and>
     onlyAdds (writesOnlyTo (idx (last rows) 2) (idx (last rows) 3)) s s' \<and>
     (\<exists>ok. Call (Clear (idx (last rows) 2) (idx (last rows) 3)) ok \<in> set (added s s'))"
proof -
  let ?d = "idx (last rows) 2" and ?r = "idx (last rows) 3"
  let ?P = "writesOnlyTo ?d ?r"
  from assms(4) have lastrow: "rows ! (length rows - Suc 0) = last rows"
    by (simp add: last_conv_nth)
  from assms(3) have max: "1 \<le> MAX_RETRIES cfg"
    unfolding getConfigurationData_def by (rule retryOperation_values_attempted)
  from assms(3) onlyAdds_getConfigurationData [of ?d ?r s cfg e]
  have s1: "onlyAdds ?P s s1" by simp
  let ?fetched = "fst (processBatch cfg e rows s1)"
  let ?s2 = "snd (processBatch cfg e rows s1)"
  have loop: "batchLoop cfg e rows 0 [] s1 = Some (?fetched, ?s2)"
    using batchLoop_eq [OF assms(1), of e rows 0 "[]" s1] by simp
  have "onlyAdds ?P s1 ?s2" by (rule onlyAdds_processBatch)
  with s1 have s2: "onlyAdds ?P s ?s2" by (rule onlyAdds_trans)
  let ?data = "cleanData ?fetched"
  from write_stage [OF assms(2) max, of ?data e ?d ?r ?s2]
  obtain wres s3 ok rest where w:
      "(if length ?data > CHUNK_SIZE cfg then updateDestinationInChunks cfg e ?d ?r ?data ?s2
        else Some (updateDestination cfg e ?d ?r ?data ?s2)) = Some (wres, s3)"
      "onlyAdds ?P ?s2 s3"
      "trace s3 = trace ?s2 @ Throttle # Call (Clear ?d ?r) ok # rest"
    by blast
  from s2 w(2) have s3: "onlyAdds ?P s s3" by (rule onlyAdds_trans)
  let ?fin = "logToSheet cfg e ?d ''Done'' s3"
  have logged: "onlyAdds ?P s3 (snd ?fin)" by (rule onlyAdds_logToSheet)
  from assms(3) assms(4) loop w(1)
  have body: "runTry cfg e s = Some (case wres of Inl x \<Rightarrow> (Inl x, s3) | Inr u \<Rightarrow> ?fin)"
    by (cases wres) (simp_all add: runTry_def Let_def lastrow case_prod_beta)
  obtain tres s4 where t: "(case wres of Inl x \<Rightarrow> (Inl x, s3) | Inr u \<Rightarrow> ?fin) = (tres, s4)"
    by (cases "case wres of Inl x \<Rightarrow> (Inl x, s3) | Inr u \<Rightarrow> ?fin")
  with logged have s34: "onlyAdds ?P s3 s4"
    by (cases wres) (auto simp: onlyAdds_refl)
  show ?thesis
  proof (cases tres)
    case (Inr u)
    with body t have "run cfg e s = Some (Inr (), s4)"
      by (simp add: run_def)
    moreover from s3 s34 have "onlyAdds ?P s s4" by (rule onlyAdds_trans)
    moreover from mem_added [OF s2 w(3) s34]
    have "\<exists>ok. Call (Clear ?d ?r) ok \<in> set (added s s4)" by blast
    ultimately show ?thesis by blast
  next
    case (Inl error)
    let ?s5 = "snd (runCatch cfg e error s4)"
    have c: "onlyAdds ?P s4 ?s5" by (rule onlyAdds_runCatch)
    with s34 have s35: "onlyAdds ?P s3 ?s5" by (rule onlyAdds_trans)
    from body t Inl have "run cfg e s = Some (fst (runCatch cfg e error s4), ?s5)"
      by (simp add: run_def)
    moreover from s3 s35 have "onlyAdds ?P s ?s5" by (rule onlyAdds_trans)
    moreover from mem_added [OF s2 w(3) s35]
    have "\<exists>ok. Call (Clear ?d ?r) ok \<in> set (added s ?s5)" by blast
    ultimately show ?thesis by blast
  qed
qed

section \<open>The calls that succeeded\<close>

lemma succeeded_append: "succeeded (xs @ ys) = succeeded xs @ succeeded ys"
  by (induction xs rule: succeeded.induct) simp_all

text \<open>
  The retry of one remote call, whatever the service answers: the call succeeded once
  when the retry returns, and never when it throws.
\<close>

lemma retryLoop_succeeded:
  "operation = remoteUnit e c \<Longrightarrow>
     \<exists>evs. trace (snd (retryLoop operation maxRetries attempt lastError s)) = trace s @ evs \<and>
       succeeded evs =
         (if isl (fst (retryLoop operation maxRetries attempt lastError s)) then [] else [c])"
proof (induction operation maxRetries attempt lastError s rule: retryLoop.induct)
  case (1 operation maxRetries attempt lastError s)
  show ?case
  proof (cases "attempt \<le> maxRetries")
    case False
    then show ?thesis
      by (simp add: retryLoop_exhausted)
  next
    case le: True
    show ?thesis
    proof (cases "remote e (calls s) c")
      case (Inr v)
      with "1.prems" have "operation (throttle s) =
          (Inr (), (throttle s)\<lparr>trace := trace (throttle s) @ [Call c True],
                      calls := calls (throttle s) + 1\<rparr>)"
        by (simp add: remoteUnit_resolved calls_throttle)
      with le show ?thesis
        by (simp add: retryLoop_success throttle_def)
    next
      case (Inl m)
      let ?s1 = "(throttle s)\<lparr>trace := trace (throttle s) @ [Call c False],
                      calls := calls (throttle s) + 1\<rparr>"
      from Inl "1.prems" have op: "operation (throttle s) = (Inl (Error m), ?s1)"
        by (simp add: remoteUnit_rejected calls_throttle)
      show ?thesis
      proof (cases "attempt = maxRetries")
        case True
        with op show ?thesis
          by (simp add: retryLoop_last throttle_def)
      next
        case False
        with le have lt: "attempt < maxRetries" by simp
        let ?s2 = "sleep (backoff attempt) ?s1"
        let ?R = "retryLoop operation maxRetries (attempt + 1) (Error m) ?s2"
        from lt op have step: "retryLoop operation maxRetries attempt lastError s = ?R"
          by (rule retryLoop_again)
        from "1.IH" [of "Inl (Error m)" ?s1 "Error m" m] le op False "1.prems"
        obtain evs where evs: "trace (snd ?R) = trace ?s2 @ evs"
            "succeeded evs = (if isl (fst ?R) then [] else [c])"
          by auto
        have "trace ?s2 = trace s @ [Throttle, Call c False, Sleep (backoff attempt)]"
          by (simp add: sleep_def throttle_def)
        with evs(1) have "trace (snd ?R) =
            trace s @ ([Throttle, Call c False, Sleep (backoff attempt)] @ evs)"
          by simp
        moreover from evs(2)
        have "succeeded ([Throttle, Call c False, Sleep (backoff attempt)] @ evs) =
            (if isl (fst ?R) then [] else [c])"
          by simp
        ultimately show ?thesis
          unfolding step by blast
      qed
    qed
  qed
qed

lemma retryOperation_succeeded:
  "retryOperation (remoteUnit e c) maxRetries s = (res, s') \<Longrightarrow>
     \<exists>evs. trace s' = trace s @ evs \<and> succeeded evs = (if isl res then [] else [c])"
  using retryLoop_succeeded [OF refl, of e c maxRetries 1 ThrownUndefined s]
  by (simp add: retryOperation_def)

lemma chunkLoop_succeeded:
  assumes "0 < CHUNK_SIZE cfg"
  shows "0 < i \<Longrightarrow> chunkLoop cfg e d r data i s = Some (Inr (), s') \<Longrightarrow>
    \<exists>evs. trace s' = trace s @ evs \<and>
       succeeded evs = map (Append d r) (slices (CHUNK_SIZE cfg) (drop i data))"
proof (induction "length data - i" arbitrary: i s rule: less_induct)
  case less
  show ?case
  proof (cases "i < length data")
    case False
    with less.prems(2) have "s' = s"
      by (subst (asm) chunkLoop.simps) simp
    with False show ?thesis
      by (simp add: slices_Nil)
  next
    case True
    let ?c = "CHUNK_SIZE cfg"
    let ?ch = "take ?c (drop i data)"
    obtain res s1 where w:
      "retryOperation (remoteUnit e (Append d r ?ch)) (MAX_RETRIES cfg) s = (res, s1)"
      by (cases "retryOperation (remoteUnit e (Append d r ?ch)) (MAX_RETRIES cfg) s")
    from True less.prems w obtain u where res: "res = Inr u"
      by (subst (asm) chunkLoop.simps) (cases res, simp_all)
    from True less.prems w res
    have next_: "chunkLoop cfg e d r data (i + ?c) s1 = Some (Inr (), s')"
      by (subst (asm) chunkLoop.simps) simp
    from retryOperation_succeeded [OF w] res
    obtain evs1 where evs1: "trace s1 = trace s @ evs1" "succeeded evs1 = [Append d r ?ch]"
      by auto
    from True assms have "length data - (i + ?c) < length data - i" by simp
    from less.hyps [OF this _ next_] less.prems(1)
    obtain evs2 where evs2: "trace s' = trace s1 @ evs2"
        "succeeded evs2 = map (Append d r) (slices ?c (drop (i + ?c) data))"
      by auto
    from True have ne: "drop i data \<noteq> []" by simp
    have "slices ?c (drop i data) = ?ch # slices ?c (drop ?c (drop i data))"
      using assms ne by (rule slices_step)
    then have sl: "slices ?c (drop i data) = ?ch # slices ?c (drop (i + ?c) data)"
      by (simp add: add.commute)
    from evs1 evs2 have "trace s' = trace s @ (evs1 @ evs2)"
      by simp
    moreover from evs1 evs2 have "succeeded (evs1 @ evs2) =
        map (Append d r) (slices ?c (drop i data))"
      by (simp add: succeeded_append sl)
    ultimately show ?thesis by blast
  qed
qed

lemma succeeded_sleep:
  "trace t = trace s @ evs \<Longrightarrow> trace (sleep ms t) = trace s @ (evs @ [Sleep ms])"
  by (simp add: sleep_def)

lemma chunkLoop_p1_succeeded:
  assumes "0 < CHUNK_SIZE cfg"
  shows "0 < i \<Longrightarrow> chunkLoop_p1 cfg e d r data i s = Some (Inr (), s') \<Longrightarrow>
    \<exists>evs. trace s' = trace s @ evs \<and>
       succeeded evs = map (Append d r) (slices (CHUNK_SIZE cfg) (drop i data))"
proof (induction "length data - i" arbitrary: i s rule: less_induct)
  case less
  show ?case
  proof (cases "i < length data")
    case False
    with less.prems(2) have "s' = s"
      by (subst (asm) chunkLoop_p1.simps) simp
    with False show ?thesis
      by (simp add: slices_Nil)
  next
    case True
    let ?c = "CHUNK_SIZE cfg"
    let ?ch = "take ?c (drop i data)"
    obtain res s1 where w:
      "retryOperation (remoteUnit e (Append d r ?ch)) (MAX_RETRIES cfg) s = (res, s1)"
      by (cases "retryOperation (remoteUnit e (Append d r ?ch)) (MAX_RETRIES cfg) s")
    from True less.prems w obtain u where res: "res = Inr u"
      by (subst (asm) chunkLoop_p1.simps)
        (cases res, auto simp: retryOperation_p1_eq split: thrown.splits)
    from True less.prems w res
    have next_: "chunkLoop_p1 cfg e d r data (i + ?c) (sleep 1000 s1) = Some (Inr (), s')"
      by (subst (asm) chunkLoop_p1.simps) (simp add: retryOperation_p1_eq)
    from retryOperation_succeeded [OF w] res
    obtain evs1 where evs1: "trace s1 = trace s @ evs1" "succeeded evs1 = [Append d r ?ch]"
      by auto
    from True assms have "length data - (i + ?c) < length data - i" by simp
    from less.hyps [OF this _ next_] less.prems(1)
    obtain evs2 where evs2: "trace s' = trace (sleep 1000 s1) @ evs2"
        "succeeded evs2 = map (Append d r) (slices ?c (drop (i + ?c) data))"
      by auto
    from True have ne: "drop i data \<noteq> []" by simp
    have "slices ?c (drop i data) = ?ch # slices ?c (drop ?c (drop i data))"
      using assms ne by (rule slices_step)
    then have sl: "slices ?c (drop i data) = ?ch # slices ?c (drop (i + ?c) data)"
      by (simp add: add.commute)
    from evs1(1) evs2(1) have "trace s' = trace s @ ((evs1 @ [Sleep 1000]) @ evs2)"
      by (simp add: succeeded_sleep)
    moreover from evs1 evs2 have "succeeded ((evs1 @ [Sleep 1000]) @ evs2) =
        map (Append d r) (slices ?c (drop i data))"
      by (simp add: succeeded_append sl)
    ultimately show ?thesis by blast
  qed
qed

text \<open>
  A chunked write that returns normally, whatever the service answered on the way: the
  calls that succeeded are the clear, the update of the first chunk and the appends of
  the others.
\<close>

lemma updateDestinationInChunks_succeeded:
  assumes "0 < CHUNK_SIZE cfg" and "CHUNK_SIZE cfg < length data"
    and "updateDestinationInChunks cfg e d r data s = Some (Inr (), s')"
  shows "succeeded (added s s') =
     Clear d r # Update d r (take (CHUNK_SIZE cfg) data) #
       map (Append d r) (slices (CHUNK_SIZE cfg) (drop (CHUNK_SIZE cfg) data))"
proof -
  let ?c = "CHUNK_SIZE cfg"
  obtain cres s1 where clear:
    "retryOperation (remoteUnit e (Clear d r)) (MAX_RETRIES cfg) s = (cres, s1)"
    by (cases "retryOperation (remoteUnit e (Clear d r)) (MAX_RETRIES cfg) s")
  from assms(2) assms(3) clear obtain u where cres: "cres = Inr u"
    by (cases cres) (simp_all add: updateDestinationInChunks_def)
  from assms(2) assms(3) clear cres have loop: "chunkLoop cfg e d r data 0 s1 = Some (Inr (), s')"
    by (simp add: updateDestinationInChunks_def)
  obtain wres s2 where w:
    "retryOperation (remoteUnit e (Update d r (take ?c data))) (MAX_RETRIES cfg) s1 = (wres, s2)"
    by (cases "retryOperation (remoteUnit e (Update d r (take ?c data))) (MAX_RETRIES cfg) s1")
  from assms(2) have pos: "0 < length data" by (cases data) simp_all
  from pos loop w obtain u' where wres: "wres = Inr u'"
    by (subst (asm) chunkLoop.simps) (cases wres, simp_all)
  from pos loop w wres have rest: "chunkLoop cfg e d r data (0 + ?c) s2 = Some (Inr (), s')"
    by (subst (asm) chunkLoop.simps) simp
  from retryOperation_succeeded [OF clear] cres
  obtain evs1 where evs1: "trace s1 = trace s @ evs1" "succeeded evs1 = [Clear d r]"
    by auto
  from retryOperation_succeeded [OF w] wres
  obtain evs2 where evs2: "trace s2 = trace s1 @ evs2"
      "succeeded evs2 = [Update d r (take ?c data)]"
    by auto
  from chunkLoop_succeeded [OF assms(1) _ rest] assms(1)
  obtain evs3 where evs3: "trace s' = trace s2 @ evs3"
      "succeeded evs3 = map (Append d r) (slices ?c (drop (0 + ?c) data))"
    by auto
  from evs1(1) evs2(1) evs3(1) have "added s s' = evs1 @ evs2 @ evs3"
    by (simp add: added_def)
  with evs1(2) evs2(2) evs3(2) show ?thesis
    by (simp add: succeeded_append)
qed

lemma updateDestinationInChunks_p1_succeeded:
  assumes "0 < CHUNK_SIZE cfg" and "CHUNK_SIZE cfg < length data"
    and "updateDestinationInChunks_p1 cfg e d r data s = Some (Inr (), s')"
  shows "succeeded (added s s') =
     Clear d r # Update d r (take (CHUNK_SIZE cfg) data) #
       map (Append d r) (slices (CHUNK_SIZE cfg) (drop (CHUNK_SIZE cfg) data))"
proof -
  let ?c = "CHUNK_SIZE cfg"
  obtain cres s1 where clear:
    "retryOperation (remoteUnit e (Clear d r)) (MAX_RETRIES cfg) s = (cres, s1)"
    by (cases "retryOperation (remoteUnit e (Clear d r)) (MAX_RETRIES cfg) s")
  from assms(2) assms(3) clear obtain u where cres: "cres = Inr u"
    by (cases cres) (simp_all add: updateDestinationInChunks_p1_def retryOperation_p1_eq)
  from assms(2) assms(3) clear cres
  have loop: "chunkLoop_p1 cfg e d r data 0 s1 = Some (Inr (), s')"
    by (simp add: updateDestinationInChunks_p1_def retryOperation_p1_eq)
  obtain wres s2 where w:
    "retryOperation (remoteUnit e (Update d r (take ?c data))) (MAX_RETRIES cfg) s1 = (wres, s2)"
    by (cases "retryOperation (remoteUnit e (Update d r (take ?c data))) (MAX_RETRIES cfg) s1")
  from assms(2) have pos: "0 < length data" by (cases data) simp_all
  from pos loop w obtain u' where wres: "wres = Inr u'"
    by (subst (asm) chunkLoop_p1.simps)
      (cases wres, auto simp: retryOperation_p1_eq split: thrown.splits)
  from pos loop w wres
  have rest: "chunkLoop_p1 cfg e d r data (0 + ?c) (sleep 1000 s2) = Some (Inr (), s')"
    by (subst (asm) chunkLoop_p1.simps) (simp add: retryOperation_p1_eq)
  from retryOperation_succeeded [OF clear] cres
  obtain evs1 where evs1: "trace s1 = trace s @ evs1" "succeeded evs1 = [Clear d r]"
    by auto
  from retryOperation_succeeded [OF w] wres
  obtain evs2 where evs2: "trace s2 = trace s1 @ evs2"
      "succeeded evs2 = [Update d r (take ?c data)]"
    by auto
  from chunkLoop_p1_succeeded [OF assms(1) _ rest] assms(1)
  obtain evs3 where evs3: "trace s' = trace (sleep 1000 s2) @ evs3"
      "succeeded evs3 = map (Append d r) (slices ?c (drop (0 + ?c) data))"
    by auto
  from evs1(1) evs2(1) evs3(1) have "added s s' = evs1 @ evs2 @ [Sleep 1000] @ evs3"
    by (simp add: added_def sleep_def)
  with evs1(2) evs2(2) evs3(2) show ?thesis
    by (simp add: succeeded_append)
qed

section \<open>Claims about retryOperation\<close>

text \<open>
  C10. Called with \<open>maxRetries \<le> 0\<close>, \<open>retryOperation\<close> never enters its loop: whatever
  the operation is, it is not invoked and \<open>throttle\<close> is not called (the state, with
  its trace and its count of remote calls, comes back unchanged), and the value thrown is
  \<open>undefined\<close>, the initial content of \<open>lastError\<close>. Both variants of the function
  behave so.
\<close>

theorem retryOperation_nonpositive_maxRetries:
  "maxRetries \<le> 0 \<Longrightarrow>
     retryOperation operation maxRetries s = (Inl ThrownUndefined, s) \<and>
     retryOperation_p1 operation maxRetries s = (Inl ThrownUndefined, s) \<and>
     added s (snd (retryOperation operation maxRetries s)) = [] \<and>
     calls (snd (retryOperation operation maxRetries s)) = calls s"
  by (simp add: retryOperation_def retryOperation_p1_def retryLoop_exhausted
      retryLoop_p1_exhausted added_def)

theorem retryOperation_nonpositive_maxRetries_witness:
  "(0::int) \<le> 0 \<and>
   retryOperation (remoteUnit alwaysOk (Clear (Str ''d'') (Str ''r''))) 0 initial =
     (Inl ThrownUndefined, initial) \<and>
   retryOperation_p1 (remoteUnit alwaysOk (Clear (Str ''d'') (Str ''r''))) 0 initial =
     (Inl ThrownUndefined, initial) \<and>
   trace (snd (retryOperation (remoteUnit alwaysOk (Clear (Str ''d'') (Str ''r''))) 0 initial)) = []"
  using retryOperation_nonpositive_maxRetries
    [of 0 "remoteUnit alwaysOk (Clear (Str ''d'') (Str ''r''))" initial]
  by (simp add: initial_def)







section \<open>Claims about cleanData\<close>

lemma cleanData_alt:
  "cleanData data =
     map (map (\<lambda>cell. if cell = Str [] \<or> cell = Null \<or> cell = Undefined then Num 0 else cell))
       (filter (list_ex (\<lambda>cell. cell \<noteq> Str [] \<and> cell \<noteq> Null \<and> cell \<noteq> Undefined)) data)"
  by (cases data) (simp_all add: cleanData_def)

lemma cleanData_p1_eq: "cleanData_p1 data = cleanData data"
  by (simp add: cleanData_p1_def cleanData_def looseNull_def)

lemma replaced_cell_not_empty:
  "(if cell = Str [] \<or> cell = Null \<or> cell = Undefined then Num 0 else cell) \<noteq> Str [] \<and>
   (if cell = Str [] \<or> cell = Null \<or> cell = Undefined then Num 0 else cell) \<noteq> Null \<and>
   (if cell = Str [] \<or> cell = Null \<or> cell = Undefined then Num 0 else cell) \<noteq> Undefined"
  by simp

lemma cleaned_row_fixed:
  "map (\<lambda>cell. if cell = Str [] \<or> cell = Null \<or> cell = Undefined then Num 0 else cell)
     (map (\<lambda>cell. if cell = Str [] \<or> cell = Null \<or> cell = Undefined then Num 0 else cell) r) =
   map (\<lambda>cell. if cell = Str [] \<or> cell = Null \<or> cell = Undefined then Num 0 else cell) r"
  by (induction r) simp_all

lemma cleaned_row_kept:
  "list_ex (\<lambda>cell. cell \<noteq> Str [] \<and> cell \<noteq> Null \<and> cell \<noteq> Undefined) r \<Longrightarrow>
   list_ex (\<lambda>cell. cell \<noteq> Str [] \<and> cell \<noteq> Null \<and> cell \<noteq> Undefined)
     (map (\<lambda>cell. if cell = Str [] \<or> cell = Null \<or> cell = Undefined then Num 0 else cell) r)"
  by (induction r) auto

text \<open>
  C4. No row that \<open>cleanData\<close> returns holds an empty string, \<open>null\<close> or
  \<open>undefined\<close>; every returned row is the image of an input row with at least one cell
  that is none of the three, so as many rows come back as the input has rows with such a
  cell; and the empty input gives the empty result.
\<close>

theorem cleanData_rows_have_no_empty_cell:
  "(\<forall>r \<in> set (cleanData data).
      (\<forall>cell \<in> set r. cell \<noteq> Str [] \<and> cell \<noteq> Null \<and> cell \<noteq> Undefined) \<and>
      (\<exists>r0 \<in> set data.
         (\<exists>cell \<in> set r0. cell \<noteq> Str [] \<and> cell \<noteq> Null \<and> cell \<noteq> Undefined) \<and>
         r = map (\<lambda>cell. if cell = Str [] \<or> cell = Null \<or> cell = Undefined
                          then Num 0 else cell) r0)) \<and>
   length (cleanData data) =
     length (filter (\<lambda>r0. \<exists>cell \<in> set r0. cell \<noteq> Str [] \<and> cell \<noteq> Null \<and> cell \<noteq> Undefined)
               data) \<and>
   cleanData [] = []"
proof -
  have cells: "\<forall>r \<in> set (cleanData data).
      (\<forall>cell \<in> set r. cell \<noteq> Str [] \<and> cell \<noteq> Null \<and> cell \<noteq> Undefined) \<and>
      (\<exists>r0 \<in> set data.
         (\<exists>cell \<in> set r0. cell \<noteq> Str [] \<and> cell \<noteq> Null \<and> cell \<noteq> Undefined) \<and>
         r = map (\<lambda>cell. if cell = Str [] \<or> cell = Null \<or> cell = Undefined
                          then Num 0 else cell) r0)"
  proof
    fix r assume "r \<in> set (cleanData data)"
    then obtain r0 where r0: "r0 \<in> set data"
        "list_ex (\<lambda>cell. cell \<noteq> Str [] \<and> cell \<noteq> Null \<and> cell \<noteq> Undefined) r0"
        "r = map (\<lambda>cell. if cell = Str [] \<or> cell = Null \<or> cell = Undefined
                          then Num 0 else cell) r0"
      unfolding cleanData_alt by auto
    from r0(3) have "\<forall>cell \<in> set r. cell \<noteq> Str [] \<and> cell \<noteq> Null \<and> cell \<noteq> Undefined"
      using replaced_cell_not_empty by auto
    moreover from r0(2)
    have "\<exists>cell \<in> set r0. cell \<noteq> Str [] \<and> cell \<noteq> Null \<and> cell \<noteq> Undefined"
      by (simp add: list_ex_iff)
    ultimately show "(\<forall>cell \<in> set r. cell \<noteq> Str [] \<and> cell \<noteq> Null \<and> cell \<noteq> Undefined) \<and>
      (\<exists>r0 \<in> set data.
         (\<exists>cell \<in> set r0. cell \<noteq> Str [] \<and> cell \<noteq> Null \<and> cell \<noteq> Undefined) \<and>
         r = map (\<lambda>cell. if cell = Str [] \<or> cell = Null \<or> cell = Undefined
                          then Num 0 else cell) r0)"
      using r0(1) r0(3) by blast
  qed
  have count: "length (cleanData data) =
     length (filter (\<lambda>r0. \<exists>cell \<in> set r0. cell \<noteq> Str [] \<and> cell \<noteq> Null \<and> cell \<noteq> Undefined)
               data)"
  proof -
    have "list_ex (\<lambda>cell. cell \<noteq> Str [] \<and> cell \<noteq> Null \<and> cell \<noteq> Undefined) =
        (\<lambda>r0. \<exists>cell \<in> set r0. cell \<noteq> Str [] \<and> cell \<noteq> Null \<and> cell \<noteq> Undefined)"
      by (rule ext) (simp add: list_ex_iff)
    then show ?thesis
      unfolding cleanData_alt by simp
  qed
  have "cleanData [] = []"
    by (simp add: cleanData_def)
  with cells count show ?thesis by blast
qed

theorem cleanData_rows_have_no_empty_cell_witness:
  "cleanData [[Str ''a'', Str [], Null], [Str [], Undefined], [], [Undefined, Num 7]] =
     [[Str ''a'', Num 0, Num 0], [Num 0, Num 7]] \<and>
   [Str ''a'', Num 0, Num 0] \<in>
     set (cleanData [[Str ''a'', Str [], Null], [Str [], Undefined], [], [Undefined, Num 7]]) \<and>
   Str [] \<notin> set [Str ''a'', Num 0, Num 0] \<and> Null \<notin> set [Str ''a'', Num 0, Num 0] \<and>
   Undefined \<notin> set [Str ''a'', Num 0, Num 0] \<and>
   length (cleanData [[Str ''a'', Str [], Null], [Str [], Undefined], [], [Undefined, Num 7]]) = 2"
proof -
  let ?data = "[[Str ''a'', Str [], Null], [Str [], Undefined], [], [Undefined, Num 7]]"
  have computed: "cleanData ?data = [[Str ''a'', Num 0, Num 0], [Num 0, Num 7]]"
    by (simp add: cleanData_def)
  from computed have member: "[Str ''a'', Num 0, Num 0] \<in> set (cleanData ?data)"
    by simp
  from cleanData_rows_have_no_empty_cell [of ?data] member
  have "\<forall>cell \<in> set [Str ''a'', Num 0, Num 0]. cell \<noteq> Str [] \<and> cell \<noteq> Null \<and> cell \<noteq> Undefined"
    by blast
  then have "Str [] \<notin> set [Str ''a'', Num 0, Num 0] \<and> Null \<notin> set [Str ''a'', Num 0, Num 0] \<and>
      Undefined \<notin> set [Str ''a'', Num 0, Num 0]"
    by blast
  with computed member show ?thesis by simp
qed

text \<open>
  C9. Cleaning a cleaned row set changes nothing, in both variants of \<open>cleanData\<close>.
\<close>

theorem cleanData_idempotent:
  "cleanData (cleanData data) = cleanData data \<and>
   cleanData_p1 (cleanData_p1 data) = cleanData_p1 data"
proof -
  let ?fix = "\<lambda>cell. if cell = Str [] \<or> cell = Null \<or> cell = Undefined then Num 0 else cell"
  let ?has = "list_ex (\<lambda>cell. cell \<noteq> Str [] \<and> cell \<noteq> Null \<and> cell \<noteq> Undefined)"
  have kept: "filter ?has (map (map ?fix) (filter ?has xs)) = map (map ?fix) (filter ?has xs)"
    for xs :: "row list"
    by (induction xs) (simp_all add: cleaned_row_kept)
  have fixed: "map (map ?fix) (map (map ?fix) xs) = map (map ?fix) xs" for xs :: "row list"
    by (induction xs) (simp_all add: cleaned_row_fixed del: map_map)
  have "cleanData (cleanData data) = map (map ?fix) (filter ?has (map (map ?fix) (filter ?has data)))"
    by (simp only: cleanData_alt)
  also have "\<dots> = map (map ?fix) (map (map ?fix) (filter ?has data))"
    by (simp only: kept)
  also have "\<dots> = map (map ?fix) (filter ?has data)"
    by (simp only: fixed)
  also have "\<dots> = cleanData data"
    by (simp only: cleanData_alt)
  finally have "cleanData (cleanData data) = cleanData data" .
  then show ?thesis
    by (simp add: cleanData_p1_eq)
qed

section \<open>Claims about updateDestinationInChunks\<close>

text \<open>
  C1. Let the data have more rows than \<open>CHUNK_SIZE\<close>, and call the slices of
  \<open>CHUNK_SIZE\<close> rows taken from its start the chunks: there are
  \<open>ceil (length data / CHUNK_SIZE)\<close> of them, none longer than \<open>CHUNK_SIZE\<close>, and put
  together in order they are the data. Whenever \<open>updateDestinationInChunks\<close> returns
  normally, whatever the remote service answered on the way, the calls that succeeded
  are, in this order: one \<open>clear\<close> of the destination range, one \<open>update\<close> with the
  first chunk, and one \<open>append\<close> for each further chunk. When every remote call
  succeeds the function does return normally and these are all the calls it issued. Both
  variants of the function behave so.
\<close>

theorem updateDestinationInChunks_clear_update_appends:
  assumes "CHUNK_SIZE cfg < length data" and "0 < CHUNK_SIZE cfg"
  shows "(let chunks = slices (CHUNK_SIZE cfg) data;
              expected = Clear d r # Update d r (hd chunks) # map (Append d r) (tl chunks)
          in chunks \<noteq> [] \<and>
             length (tl chunks) = (length data + CHUNK_SIZE cfg - 1) div CHUNK_SIZE cfg - 1 \<and>
             (\<forall>ch \<in> set chunks. length ch \<le> CHUNK_SIZE cfg) \<and>
             concat chunks = data \<and>
             (\<forall>s'. updateDestinationInChunks cfg e d r data s = Some (Inr (), s') \<longrightarrow>
                   succeeded (added s s') = expected) \<and>
             (\<forall>s'. updateDestinationInChunks_p1 cfg e d r data s = Some (Inr (), s') \<longrightarrow>
                   succeeded (added s s') = expected) \<and>
             (1 \<le> MAX_RETRIES cfg \<and> (\<forall>k c. \<exists>v. remote e k c = Inr v) \<longrightarrow>
                (\<exists>s' s1'.
                   updateDestinationInChunks cfg e d r data s = Some (Inr (), s') \<and>
                   updateDestinationInChunks_p1 cfg e d r data s = Some (Inr (), s1') \<and>
                   remoteCalls (added s s') = expected \<and>
                   remoteCalls (added s s1') = expected)))"
proof -
  let ?c = "CHUNK_SIZE cfg"
  let ?rest = "slices ?c (drop ?c data)"
  let ?expected = "Clear d r # Update d r (take ?c data) # map (Append d r) ?rest"
  from assms(1) have "data \<noteq> []" by (cases data) simp_all
  with assms(2) have chunks: "slices ?c data = take ?c data # ?rest"
    by (rule slices_step)
  have sel: "hd (slices ?c data) = take ?c data" "tl (slices ?c data) = ?rest"
    and ne: "slices ?c data \<noteq> []"
    by (simp_all only: chunks list.sel list.distinct not_False_eq_True)
  have "length (slices ?c data) = (length data + ?c - 1) div ?c"
    using assms(2) by (rule length_slices)
  then have count: "length ?rest = (length data + ?c - 1) div ?c - 1"
    by (simp add: chunks)
  have bound: "\<forall>ch \<in> set (slices ?c data). length ch \<le> ?c"
    using slices_bounded by blast
  have whole: "concat (slices ?c data) = data"
    using assms(2) by (rule concat_slices)
  have done_: "\<forall>s'. updateDestinationInChunks cfg e d r data s = Some (Inr (), s') \<longrightarrow>
      succeeded (added s s') = ?expected"
    using updateDestinationInChunks_succeeded [OF assms(2) assms(1)] by blast
  have done1: "\<forall>s'. updateDestinationInChunks_p1 cfg e d r data s = Some (Inr (), s') \<longrightarrow>
      succeeded (added s s') = ?expected"
    using updateDestinationInChunks_p1_succeeded [OF assms(2) assms(1)] by blast
  have allok: "\<exists>s' s1'.
       updateDestinationInChunks cfg e d r data s = Some (Inr (), s') \<and>
       updateDestinationInChunks_p1 cfg e d r data s = Some (Inr (), s1') \<and>
       remoteCalls (added s s') = ?expected \<and> remoteCalls (added s s1') = ?expected"
    if max: "1 \<le> MAX_RETRIES cfg" and ok: "\<forall>k c. \<exists>v. remote e k c = Inr v"
  proof -
    let ?s' = "s\<lparr>trace := trace s @
                [Throttle, Call (Clear d r) True,
                 Throttle, Call (Update d r (take ?c data)) True] @
                concat (map (\<lambda>ch. [Throttle, Call (Append d r ch) True]) ?rest),
              calls := calls s + 2 + length ?rest\<rparr>"
    let ?s1' = "s\<lparr>trace := trace s @
                [Throttle, Call (Clear d r) True,
                 Throttle, Call (Update d r (take ?c data)) True, Sleep 1000] @
                concat (map (\<lambda>ch. [Throttle, Call (Append d r ch) True, Sleep 1000]) ?rest),
              calls := calls s + 2 + length ?rest\<rparr>"
    have run: "updateDestinationInChunks cfg e d r data s = Some (Inr (), ?s')"
      using assms(2) max ok assms(1) by (rule updateDestinationInChunks_ok)
    have run1: "updateDestinationInChunks_p1 cfg e d r data s = Some (Inr (), ?s1')"
      using assms(2) max ok assms(1) by (rule updateDestinationInChunks_p1_ok)
    have calls: "remoteCalls (added s ?s') = ?expected"
      by (simp only: added_extended remoteCalls_append remoteCalls_chunks) simp
    have calls1: "remoteCalls (added s ?s1') = ?expected"
      by (simp only: added_extended remoteCalls_append remoteCalls_chunks_p1) simp
    from run run1 calls calls1 show ?thesis by blast
  qed
  show ?thesis
    unfolding Let_def sel
    using ne count bound whole done_ done1 allok by blast
qed

theorem updateDestinationInChunks_clear_update_appends_witness:
  "CHUNK_SIZE smallConfig < length [[Num 1], [Num 2], [Num 3], [Num 4], [Num 5]] \<and>
   0 < CHUNK_SIZE smallConfig \<and> 1 \<le> MAX_RETRIES smallConfig \<and>
   (\<forall>k c. \<exists>v. remote alwaysOk k c = Inr v) \<and>
   (\<exists>s'. updateDestinationInChunks smallConfig alwaysOk (Str ''d'') (Str ''r'')
            [[Num 1], [Num 2], [Num 3], [Num 4], [Num 5]] initial = Some (Inr (), s') \<and>
         remoteCalls (added initial s') =
           [Clear (Str ''d'') (Str ''r''),
            Update (Str ''d'') (Str ''r'') [[Num 1], [Num 2]],
            Append (Str ''d'') (Str ''r'') [[Num 3], [Num 4]],
            Append (Str ''d'') (Str ''r'') [[Num 5]]])"
proof -
  let ?data = "[[Num 1], [Num 2], [Num 3], [Num 4], [Num 5]]"
  have h1: "CHUNK_SIZE smallConfig < length ?data"
    and h2: "0 < CHUNK_SIZE smallConfig" and h3: "1 \<le> MAX_RETRIES smallConfig"
    by (simp_all add: smallConfig_def)
  have h4: "\<forall>k c. \<exists>v. remote alwaysOk k c = Inr v"
    by (simp add: alwaysOk_def)
  have sl: "slices (CHUNK_SIZE smallConfig) ?data = [[[Num 1], [Num 2]], [[Num 3], [Num 4]], [[Num 5]]]"
    by (simp add: smallConfig_def slices.simps)
  from updateDestinationInChunks_clear_update_appends
    [OF h1 h2, where e = alwaysOk and d = "Str ''d''" and r = "Str ''r''" and s = initial] h3 h4
  have "\<exists>s'. updateDestinationInChunks smallConfig alwaysOk (Str ''d'') (Str ''r'')
            ?data initial = Some (Inr (), s') \<and>
         remoteCalls (added initial s') =
           [Clear (Str ''d'') (Str ''r''),
            Update (Str ''d'') (Str ''r'') [[Num 1], [Num 2]],
            Append (Str ''d'') (Str ''r'') [[Num 3], [Num 4]],
            Append (Str ''d'') (Str ''r'') [[Num 5]]]"
    unfolding Let_def sl by auto
  with h1 h2 h3 h4 show ?thesis by blast
qed

text \<open>
  C6, as the code has it. In \<open>src/unnamed/part_001\<close> every successful chunk write is
  followed by \<open>rateLimiter.sleep(1000)\<close> before the loop goes on (also after the last
  chunk), whatever the remote service answers; when all calls succeed the trace is the
  clear, then for each chunk a throttle, the write and a sleep of 1000 ms. In
  \<open>src/index.js\<close> the loop goes on right after a successful chunk write: when all
  calls succeed the trace holds no sleep at all, only the throttle before each call.
\<close>

theorem chunk_pacing_delay_only_in_part_001:
  assumes "CHUNK_SIZE cfg < length data" and "0 < CHUNK_SIZE cfg" and "1 \<le> MAX_RETRIES cfg"
    and "\<forall>k c. \<exists>v. remote e k c = Inr v"
  shows "(\<exists>s' s1'.
      updateDestinationInChunks_p1 cfg e d r data s = Some (Inr (), s1') \<and>
      added s s1' =
        [Throttle, Call (Clear d r) True] @
        concat (map (\<lambda>c. [Throttle, Call c True, Sleep 1000])
                  (Update d r (take (CHUNK_SIZE cfg) data) #
                   map (Append d r) (slices (CHUNK_SIZE cfg) (drop (CHUNK_SIZE cfg) data)))) \<and>
      sleeps (added s s1') = replicate (length (slices (CHUNK_SIZE cfg) data)) 1000 \<and>
      updateDestinationInChunks cfg e d r data s = Some (Inr (), s') \<and>
      added s s' =
        [Throttle, Call (Clear d r) True] @
        concat (map (\<lambda>c. [Throttle, Call c True])
                  (Update d r (take (CHUNK_SIZE cfg) data) #
                   map (Append d r) (slices (CHUNK_SIZE cfg) (drop (CHUNK_SIZE cfg) data)))) \<and>
      sleeps (added s s') = []) \<and>
    (\<forall>e' i t t1.
      i < length data \<and>
      retryOperation_p1
        (remoteUnit e' (if i = 0 then Update d r (take (CHUNK_SIZE cfg) (drop i data))
                        else Append d r (take (CHUNK_SIZE cfg) (drop i data))))
        (MAX_RETRIES cfg) t = (Inr (), t1) \<longrightarrow>
      chunkLoop_p1 cfg e' d r data i t =
        chunkLoop_p1 cfg e' d r data (i + CHUNK_SIZE cfg) (sleep 1000 t1)) \<and>
    (\<forall>e' i t t1.
      i < length data \<and>
      retryOperation
        (remoteUnit e' (if i = 0 then Update d r (take (CHUNK_SIZE cfg) (drop i data))
                        else Append d r (take (CHUNK_SIZE cfg) (drop i data))))
        (MAX_RETRIES cfg) t = (Inr (), t1) \<longrightarrow>
      chunkLoop cfg e' d r data i t = chunkLoop cfg e' d r data (i + CHUNK_SIZE cfg) t1)"
proof -
  let ?c = "CHUNK_SIZE cfg"
  let ?rest = "slices ?c (drop ?c data)"
  let ?s' = "s\<lparr>trace := trace s @
              [Throttle, Call (Clear d r) True,
               Throttle, Call (Update d r (take ?c data)) True] @
              concat (map (\<lambda>ch. [Throttle, Call (Append d r ch) True]) ?rest),
            calls := calls s + 2 + length ?rest\<rparr>"
  let ?s1' = "s\<lparr>trace := trace s @
              [Throttle, Call (Clear d r) True,
               Throttle, Call (Update d r (take ?c data)) True, Sleep 1000] @
              concat (map (\<lambda>ch. [Throttle, Call (Append d r ch) True, Sleep 1000]) ?rest),
            calls := calls s + 2 + length ?rest\<rparr>"
  from assms(1) have "data \<noteq> []" by (cases data) simp_all
  with assms(2) have chunks: "slices ?c data = take ?c data # ?rest"
    by (rule slices_step)
  have run: "updateDestinationInChunks cfg e d r data s = Some (Inr (), ?s')"
    using assms(2) assms(3) assms(4) assms(1) by (rule updateDestinationInChunks_ok)
  have run1: "updateDestinationInChunks_p1 cfg e d r data s = Some (Inr (), ?s1')"
    using assms(2) assms(3) assms(4) assms(1) by (rule updateDestinationInChunks_p1_ok)
  have tr: "added s ?s' = [Throttle, Call (Clear d r) True] @
        concat (map (\<lambda>c. [Throttle, Call c True])
                  (Update d r (take ?c data) # map (Append d r) ?rest))"
    by (simp only: added_extended) (simp add: comp_def)
  have tr1: "added s ?s1' = [Throttle, Call (Clear d r) True] @
        concat (map (\<lambda>c. [Throttle, Call c True, Sleep 1000])
                  (Update d r (take ?c data) # map (Append d r) ?rest))"
    by (simp only: added_extended) (simp add: comp_def)
  have sl: "sleeps (added s ?s') = []"
    by (simp only: added_extended sleeps_append sleeps_chunks) simp
  have sl1: "sleeps (added s ?s1') = replicate (length (slices ?c data)) 1000"
    by (simp only: added_extended sleeps_append sleeps_chunks_p1 chunks) simp
  have first: "\<exists>s' s1'.
      updateDestinationInChunks_p1 cfg e d r data s = Some (Inr (), s1') \<and>
      added s s1' =
        [Throttle, Call (Clear d r) True] @
        concat (map (\<lambda>c. [Throttle, Call c True, Sleep 1000])
                  (Update d r (take ?c data) # map (Append d r) ?rest)) \<and>
      sleeps (added s s1') = replicate (length (slices ?c data)) 1000 \<and>
      updateDestinationInChunks cfg e d r data s = Some (Inr (), s') \<and>
      added s s' =
        [Throttle, Call (Clear d r) True] @
        concat (map (\<lambda>c. [Throttle, Call c True])
                  (Update d r (take ?c data) # map (Append d r) ?rest)) \<and>
      sleeps (added s s') = []"
    using run run1 tr tr1 sl sl1 by blast
  have second: "\<forall>e' i t t1.
      i < length data \<and>
      retryOperation_p1
        (remoteUnit e' (if i = 0 then Update d r (take ?c (drop i data))
                        else Append d r (take ?c (drop i data))))
        (MAX_RETRIES cfg) t = (Inr (), t1) \<longrightarrow>
      chunkLoop_p1 cfg e' d r data i t = chunkLoop_p1 cfg e' d r data (i + ?c) (sleep 1000 t1)"
    by (intro allI impI, subst chunkLoop_p1.simps) simp
  have third: "\<forall>e' i t t1.
      i < length data \<and>
      retryOperation
        (remoteUnit e' (if i = 0 then Update d r (take ?c (drop i data))
                        else Append d r (take ?c (drop i data))))
        (MAX_RETRIES cfg) t = (Inr (), t1) \<longrightarrow>
      chunkLoop cfg e' d r data i t = chunkLoop cfg e' d r data (i + ?c) t1"
    by (intro allI impI, subst chunkLoop.simps) simp
  from first second third show ?thesis by blast
qed

theorem chunk_pacing_delay_only_in_part_001_witness:
  "CHUNK_SIZE smallConfig < length [[Num 1], [Num 2], [Num 3]] \<and>
   0 < CHUNK_SIZE smallConfig \<and> 1 \<le> MAX_RETRIES smallConfig \<and>
   (\<forall>k c. \<exists>v. remote alwaysOk k c = Inr v) \<and>
   (\<exists>s1'. updateDestinationInChunks_p1 smallConfig alwaysOk (Str ''d'') (Str ''r'')
            [[Num 1], [Num 2], [Num 3]] initial = Some (Inr (), s1') \<and>
          added initial s1' =
            [Throttle, Call (Clear (Str ''d'') (Str ''r'')) True,
             Throttle, Call (Update (Str ''d'') (Str ''r'') [[Num 1], [Num 2]]) True, Sleep 1000,
             Throttle, Call (Append (Str ''d'') (Str ''r'') [[Num 3]]) True, Sleep 1000])"
proof -
  let ?data = "[[Num 1], [Num 2], [Num 3]]"
  have h1: "CHUNK_SIZE smallConfig < length ?data"
    and h2: "0 < CHUNK_SIZE smallConfig" and h3: "1 \<le> MAX_RETRIES smallConfig"
    by (simp_all add: smallConfig_def)
  have h4: "\<forall>k c. \<exists>v. remote alwaysOk k c = Inr v"
    by (simp add: alwaysOk_def)
  have c2: "CHUNK_SIZE smallConfig = 2"
    by (simp add: smallConfig_def)
  have sl: "slices 2 (drop 2 ?data) = [[[Num 3]]]"
    by (simp add: slices.simps)
  from chunk_pacing_delay_only_in_part_001
    [OF h1 h2 h3 h4, of "Str ''d''" "Str ''r''" initial]
  have "\<exists>s1'. updateDestinationInChunks_p1 smallConfig alwaysOk (Str ''d'') (Str ''r'')
            ?data initial = Some (Inr (), s1') \<and>
          added initial s1' =
            [Throttle, Call (Clear (Str ''d'') (Str ''r'')) True] @
            concat (map (\<lambda>c. [Throttle, Call c True, Sleep 1000])
              (Update (Str ''d'') (Str ''r'') (take 2 ?data) #
               map (Append (Str ''d'') (Str ''r'')) (slices 2 (drop 2 ?data))))"
    unfolding c2 by blast
  then have "\<exists>s1'. updateDestinationInChunks_p1 smallConfig alwaysOk (Str ''d'') (Str ''r'')
            ?data initial = Some (Inr (), s1') \<and>
          added initial s1' =
            [Throttle, Call (Clear (Str ''d'') (Str ''r'')) True,
             Throttle, Call (Update (Str ''d'') (Str ''r'') [[Num 1], [Num 2]]) True, Sleep 1000,
             Throttle, Call (Append (Str ''d'') (Str ''r'') [[Num 3]]) True, Sleep 1000]"
    unfolding sl by simp
  with h1 h2 h3 h4 show ?thesis by blast
qed

text \<open>
  C6, as the specification words it, fails on \<open>src/index.js\<close>: with chunks of two rows
  and three rows of data, all calls succeeding, the first chunk is written and the second
  follows with nothing but the rate limiter's throttle in between; the trace holds no
  sleep.
\<close>

theorem chunk_pacing_delay_counterexample:
  "updateDestinationInChunks smallConfig alwaysOk (Str ''d'') (Str ''r'')
     [[Num 1], [Num 2], [Num 3]] initial =
   Some (Inr (),
     \<lparr>trace =
        [Throttle, Call (Clear (Str ''d'') (Str ''r'')) True,
         Throttle, Call (Update (Str ''d'') (Str ''r'') [[Num 1], [Num 2]]) True,
         Throttle, Call (Append (Str ''d'') (Str ''r'') [[Num 3]]) True],
      calls = 3, processedCount = 0, errorCount = 0\<rparr>) \<and>
   sleeps
     [Throttle, Call (Clear (Str ''d'') (Str ''r'')) True,
      Throttle, Call (Update (Str ''d'') (Str ''r'') [[Num 1], [Num 2]]) True,
      Throttle, Call (Append (Str ''d'') (Str ''r'') [[Num 3]]) True] = []"
  by (simp add: updateDestinationInChunks_def smallConfig_def chunkLoop.simps
      retryOperation_def retryLoop.simps remoteUnit_def remoteCall_def alwaysOk_def
      initial_def throttle_def)

section \<open>Claims about processBatch\<close>

lemma processBatch_all_fetched:
  "\<forall>out \<in> set (fetchOutcomes cfg e batch s). \<not> isl out \<Longrightarrow>
     fst (processBatch cfg e batch s) =
       concat (map2 (\<lambda>r out. map (\<lambda>dataRow. dataRow @ [Str (sourceUrl r)]) (projr out))
                 batch (fetchOutcomes cfg e batch s)) \<and>
     length (fetchOutcomes cfg e batch s) = length batch \<and>
     errorCount (snd (processBatch cfg e batch s)) = errorCount s"
proof (induction batch arbitrary: s)
  case Nil
  show ?case by (simp add: processBatch_Nil)
next
  case (Cons r batch)
  obtain res s1 where fetch: "processSheetData cfg e (idx r 0) (idx r 1) s = (res, s1)"
    by (cases "processSheetData cfg e (idx r 0) (idx r 1) s")
  with Cons.prems have "\<not> isl res" by simp
  then obtain rData where res: "res = Inr rData"
    by (cases res) simp_all
  from fetch res have item:
    "fst (batchItem cfg e r s) = Fulfilled (map (\<lambda>dataRow. dataRow @ [Str (sourceUrl r)]) rData)"
    "errorCount (snd (batchItem cfg e r s)) = errorCount s"
    using batchItem_fetch_returned [of cfg e r s rData s1] by simp_all
  from Cons.prems have "\<forall>out \<in> set (fetchOutcomes cfg e batch (snd (batchItem cfg e r s))). \<not> isl out"
    by simp
  from Cons.IH [OF this] fetch res item show ?case
    by (simp add: processBatch_Cons)
qed

text \<open>
  C5. When no fetch of a job list fails, the rows the list contributes are, job after job
  in listed order, the rows the job's fetch returned, each with the job's source URL as one
  more cell at its end: a job contributes as many rows as its fetch returned (none for
  an empty fetch), the last cell of each is the URL of that job's source spreadsheet, and
  no error is counted. This is the result of \<open>processBatch\<close> and, for a positive batch
  size, the data set the batch loop of \<open>run\<close> gathers over all batches.
\<close>

theorem processBatch_rows_carry_source_url:
  assumes "\<forall>out \<in> set (fetchOutcomes cfg e jobs s). \<not> isl out"
  shows "fst (processBatch cfg e jobs s) =
       concat (map2 (\<lambda>r out. map (\<lambda>dataRow. dataRow @ [Str (sourceUrl r)]) (projr out))
                 jobs (fetchOutcomes cfg e jobs s)) \<and>
     length (fetchOutcomes cfg e jobs s) = length jobs \<and>
     (\<forall>(r, out) \<in> set (zip jobs (fetchOutcomes cfg e jobs s)).
        length (map (\<lambda>dataRow. dataRow @ [Str (sourceUrl r)]) (projr out)) = length (projr out) \<and>
        (\<forall>tagged \<in> set (map (\<lambda>dataRow. dataRow @ [Str (sourceUrl r)]) (projr out)).
           last tagged = Str (sourceUrl r))) \<and>
     errorCount (snd (processBatch cfg e jobs s)) = errorCount s \<and>
     (0 < BATCH_SIZE cfg \<longrightarrow>
        batchLoop cfg e jobs 0 [] s = Some (processBatch cfg e jobs s))"
proof -
  have tags: "\<forall>(r, out) \<in> set (zip jobs (fetchOutcomes cfg e jobs s)).
        length (map (\<lambda>dataRow. dataRow @ [Str (sourceUrl r)]) (projr out)) = length (projr out) \<and>
        (\<forall>tagged \<in> set (map (\<lambda>dataRow. dataRow @ [Str (sourceUrl r)]) (projr out)).
           last tagged = Str (sourceUrl r))"
    by auto
  have loop: "batchLoop cfg e jobs 0 [] s = Some (processBatch cfg e jobs s)"
    if "0 < BATCH_SIZE cfg"
    using batchLoop_eq [OF that, of e jobs 0 "[]" s] by simp
  from processBatch_all_fetched [OF assms] tags loop show ?thesis
    by blast
qed

theorem processBatch_rows_carry_source_url_witness:
  "fetchOutcomes smallConfig sheets [jobA, jobB] initial =
     [Inr [[Str ''a1'', Str []], [Str ''a2'']], Inr [[Str ''b1'']]] \<and>
   fst (processBatch smallConfig sheets [jobA, jobB] initial) =
     [[Str ''a1'', Str [], Str ''https://docs.google.com/spreadsheets/d/A''],
      [Str ''a2'', Str ''https://docs.google.com/spreadsheets/d/A''],
      [Str ''b1'', Str ''https://docs.google.com/spreadsheets/d/B'']]"
proof -
  have outcomes: "fetchOutcomes smallConfig sheets [jobA, jobB] initial =
      [Inr [[Str ''a1'', Str []], [Str ''a2'']], Inr [[Str ''b1'']]]"
    by (simp add: batchItem_def processSheetData_def retryOperation_def retryLoop.simps
        remoteValues_def remoteCall_def sheets_def smallConfig_def initial_def throttle_def
        idx_def jobA_def jobB_def)
  then have "\<forall>out \<in> set (fetchOutcomes smallConfig sheets [jobA, jobB] initial). \<not> isl out"
    by simp
  from processBatch_rows_carry_source_url [OF this]
  have "fst (processBatch smallConfig sheets [jobA, jobB] initial) =
       concat (map2 (\<lambda>r out. map (\<lambda>dataRow. dataRow @ [Str (sourceUrl r)]) (projr out))
                 [jobA, jobB] (fetchOutcomes smallConfig sheets [jobA, jobB] initial))"
    by blast
  also have "\<dots> =
     [[Str ''a1'', Str [], Str ''https://docs.google.com/spreadsheets/d/A''],
      [Str ''a2'', Str ''https://docs.google.com/spreadsheets/d/A''],
      [Str ''b1'', Str ''https://docs.google.com/spreadsheets/d/B'']]"
    unfolding outcomes by (simp add: sourceUrl_def idx_def jobA_def jobB_def)
  finally show ?thesis
    using outcomes by simp
qed

text \<open>
  C2. Let \<open>r\<close> be a job whose fetch throws after its retries (\<open>processSheetData\<close>
  ends by throwing an \<open>Error\<close>), with the jobs \<open>pre\<close> listed before it and the jobs
  \<open>post\<close> after it, in the same or in later batches. Then the item of \<open>r\<close> is
  fulfilled with no rows, \<open>errorCount\<close> is one more than before and \<open>processedCount\<close>
  is unchanged, the first thing done after the failed fetch is a throttle and the append
  of the error message to the log range of the job's own destination spreadsheet
  (whatever the outcome \<open>ok\<close> of this append), and the jobs around \<open>r\<close> contribute
  what they contribute without it: the batch of all these jobs, and the batch loop of
  \<open>run\<close> over them, return the rows of \<open>pre\<close> followed by the rows of \<open>post\<close>.
\<close>

theorem failed_fetch_is_isolated:
  assumes "0 < BATCH_SIZE cfg"
    and "processSheetData cfg e (idx r 0) (idx r 1) (snd (processBatch cfg e pre s)) =
           (Inl (Error m), s1)"
  shows "\<exists>s' ok rest.
      batchItem cfg e r (snd (processBatch cfg e pre s)) = (Fulfilled [], s') \<and>
      errorCount s' = errorCount (snd (processBatch cfg e pre s)) + 1 \<and>
      processedCount s' = processedCount (snd (processBatch cfg e pre s)) \<and>
      trace s' = trace s1 @ Throttle #
        Call (Append (idx r 2) (Str logRange) [[Str (nowStr e (length (trace s1))), Str m]]) ok #
        rest \<and>
      processBatch cfg e (pre @ r # post) s =
        (fst (processBatch cfg e pre s) @ fst (processBatch cfg e post s'),
         snd (processBatch cfg e post s')) \<and>
      batchLoop cfg e (pre @ r # post) 0 [] s =
        Some (fst (processBatch cfg e pre s) @ fst (processBatch cfg e post s'),
              snd (processBatch cfg e post s'))"
proof -
  let ?s0 = "snd (processBatch cfg e pre s)"
  from batchItem_fetch_failed [OF assms(2)]
  obtain s' ok rest where item: "batchItem cfg e r ?s0 = (Fulfilled [], s')"
      "errorCount s' = errorCount ?s0 + 1" "processedCount s' = processedCount ?s0"
      "trace s' = trace s1 @ Throttle #
        Call (Append (idx r 2) (Str logRange) [[Str (nowStr e (length (trace s1))), Str m]]) ok #
        rest"
    by blast
  from item(1) have batch: "processBatch cfg e (pre @ r # post) s =
        (fst (processBatch cfg e pre s) @ fst (processBatch cfg e post s'),
         snd (processBatch cfg e post s'))"
    by (simp add: processBatch_append [of cfg e pre "r # post" s] processBatch_Cons)
  have "batchLoop cfg e (pre @ r # post) 0 [] s = Some (processBatch cfg e (pre @ r # post) s)"
    using batchLoop_eq [OF assms(1), of e "pre @ r # post" 0 "[]" s] by simp
  with batch have "batchLoop cfg e (pre @ r # post) 0 [] s =
        Some (fst (processBatch cfg e pre s) @ fst (processBatch cfg e post s'),
              snd (processBatch cfg e post s'))"
    by simp
  with item batch show ?thesis by blast
qed

theorem failed_fetch_is_isolated_witness:
  "0 < BATCH_SIZE smallConfig \<and>
   fst (processSheetData smallConfig sheets (idx jobBad 0) (idx jobBad 1)
          (snd (processBatch smallConfig sheets [jobA] initial))) =
     Inl (Error ''not found'') \<and>
   (\<exists>s'. batchItem smallConfig sheets jobBad (snd (processBatch smallConfig sheets [jobA] initial)) =
            (Fulfilled [], s') \<and>
          errorCount s' = errorCount (snd (processBatch smallConfig sheets [jobA] initial)) + 1 \<and>
          batchLoop smallConfig sheets ([jobA] @ jobBad # [jobB]) 0 [] initial =
            Some (fst (processBatch smallConfig sheets [jobA] initial) @
                    fst (processBatch smallConfig sheets [jobB] s'),
                  snd (processBatch smallConfig sheets [jobB] s')))"
proof -
  have h1: "0 < BATCH_SIZE smallConfig"
    by (simp add: smallConfig_def)
  have fails: "fst (processSheetData smallConfig sheets (idx jobBad 0) (idx jobBad 1)
          (snd (processBatch smallConfig sheets [jobA] initial))) =
     Inl (Error ''not found'')"
    by (simp add: processBatch_def batchItem_def processSheetData_def retryOperation_def
        retryLoop.simps remoteValues_def remoteCall_def sheets_def smallConfig_def
        initial_def throttle_def sleep_def backoff_def idx_def jobA_def jobBad_def)
  then obtain s1 where h2: "processSheetData smallConfig sheets (idx jobBad 0) (idx jobBad 1)
          (snd (processBatch smallConfig sheets [jobA] initial)) =
     (Inl (Error ''not found''), s1)"
    by (metis prod.collapse)
  from failed_fetch_is_isolated [OF h1 h2, of "[jobB]"]
  have "\<exists>s'. batchItem smallConfig sheets jobBad (snd (processBatch smallConfig sheets [jobA] initial)) =
            (Fulfilled [], s') \<and>
          errorCount s' = errorCount (snd (processBatch smallConfig sheets [jobA] initial)) + 1 \<and>
          batchLoop smallConfig sheets ([jobA] @ jobBad # [jobB]) 0 [] initial =
            Some (fst (processBatch smallConfig sheets [jobA] initial) @
                    fst (processBatch smallConfig sheets [jobB] s'),
                  snd (processBatch smallConfig sheets [jobB] s'))"
    by blast
  with h1 fails show ?thesis by blast
qed

section \<open>Claims about run\<close>

text \<open>
  C8 on \<open>src/unnamed/part_001\<close>. The configuration table is read from the columns C to
  F, so a configuration row has four cells and the destination stands at the indices 2 and
  3, where \<open>processBatch\<close> of the same file and \<open>run\<close> of \<open>src/index.js\<close> read it
  (lemma \<open>run_writes_to_last_row\<close>). \<open>run\<close> of \<open>src/unnamed/part_001\<close> reads the
  indices 4 and 5 instead: with the three configuration rows of \<open>sheets\<close>, whose last
  row names the destination \<open>D3\<close> and the range \<open>T!A2\<close>, it clears and writes the
  spreadsheet \<open>undefined\<close>, range \<open>undefined\<close>, while \<open>run\<close> of \<open>src/index.js\<close>
  clears and writes \<open>D3\<close>, \<open>T!A2\<close>.
\<close>

theorem run_p1_writes_to_undefined_destination:
  "map_option (\<lambda>(res, s'). (res, remoteCalls (trace s'))) (run_p1 smallConfig sheets initial) =
     Some (Inr (),
       [Get (Str ''cfg'') (Str configRange),
        Get (Str ''A'') (Str ''S!A:B''),
        Get (Str ''bad'') (Str ''S!A:B''),
        Get (Str ''bad'') (Str ''S!A:B''),
        Get (Str ''bad'') (Str ''S!A:B''),
        Get (Str ''B'') (Str ''S!A:B''),
        Clear Undefined Undefined,
        Update Undefined Undefined
          [[Str ''a1'', Num 0, Str ''https://docs.google.com/spreadsheets/d/A''],
           [Str ''a2'', Str ''https://docs.google.com/spreadsheets/d/A'']],
        Append Undefined Undefined
          [[Str ''b1'', Str ''https://docs.google.com/spreadsheets/d/B'']]]) \<and>
   map_option (\<lambda>(res, s'). (res, remoteCalls (trace s'))) (run smallConfig sheets initial) =
     Some (Inr (),
       [Get (Str ''cfg'') (Str configRange),
        Get (Str ''A'') (Str ''S!A:B''),
        Get (Str ''bad'') (Str ''S!A:B''),
        Get (Str ''bad'') (Str ''S!A:B''),
        Get (Str ''bad'') (Str ''S!A:B''),
        Append (Str ''D2'') (Str logRange)
          [[Str ''12:00'', Str ''not found'']],
        Get (Str ''B'') (Str ''S!A:B''),
        Clear (Str ''D3'') (Str ''T!A2''),
        Update (Str ''D3'') (Str ''T!A2'')
          [[Str ''a1'', Num 0, Str ''https://docs.google.com/spreadsheets/d/A''],
           [Str ''a2'', Str ''https://docs.google.com/spreadsheets/d/A'']],
        Append (Str ''D3'') (Str ''T!A2'')
          [[Str ''b1'', Str ''https://docs.google.com/spreadsheets/d/B'']],
        Append (Str ''D3'') (Str logRange) [[Str ''12:00'', Str ''Done'']]])"
  by (simp add: run_p1_def runTry_p1_def getConfigurationData_p1_def retryOperation_p1_eq
      run_def runTry_def getConfigurationData_def
      retryOperation_def retryLoop.simps remoteValues_def remoteUnit_def remoteCall_def
      sheets_def smallConfig_def initial_def throttle_def sleep_def backoff_def
      batchLoop_p1.simps processBatch_p1_def batchItem_p1_def processSheetData_p1_def
      batchLoop.simps processBatch_def batchItem_def processSheetData_def logToSheet_def
      idx_def jobA_def jobBad_def jobB_def sourceUrl_def cleanData_p1_def looseNull_def
      cleanData_def updateDestinationInChunks_p1_def updateDestination_p1_def
      updateDestinationInChunks_def updateDestination_def chunkLoop_p1.simps chunkLoop.simps
      Let_def)


end
